theory Spec2Isabelle
  imports Complex_Main "HOL-Library.Multiset"
begin

section \<open>Values shared by the Convex functions\<close>

text \<open>
  The survey backend is TypeScript on Convex.  A JavaScript \<open>number\<close> is a double; the model keeps
  the three non-finite values apart from the finite ones, which are exact rationals (every finite
  double is one).  Rounding of double arithmetic is not modelled: sums, differences and quotients
  of finite values are the exact ones.  Counters that the code only ever increments by one and
  millisecond timestamps are integers.

  Selector names of the records carry a short prefix (\<open>f_\<close> for a field of a survey version,
  \<open>i_\<close> for an invite, \<open>s_\<close> for a session, ...) because all records share one name space.
\<close>

datatype jsnum = Fin rat | PosInf | NegInf | NaN

fun js_lt :: "jsnum \<Rightarrow> jsnum \<Rightarrow> bool" where
  "js_lt NaN _ = False"
| "js_lt _ NaN = False"
| "js_lt (Fin a) (Fin b) = (a < b)"
| "js_lt PosInf _ = False"
| "js_lt _ NegInf = False"
| "js_lt NegInf _ = True"
| "js_lt _ PosInf = True"

fun js_le :: "jsnum \<Rightarrow> jsnum \<Rightarrow> bool" where
  "js_le NaN _ = False"
| "js_le _ NaN = False"
| "js_le (Fin a) (Fin b) = (a \<le> b)"
| "js_le NegInf _ = True"
| "js_le _ PosInf = True"
| "js_le PosInf _ = False"
| "js_le _ NegInf = False"

definition js_gt :: "jsnum \<Rightarrow> jsnum \<Rightarrow> bool" where
  "js_gt a b = js_lt b a"

fun js_sub :: "jsnum \<Rightarrow> jsnum \<Rightarrow> jsnum" where
  "js_sub NaN _ = NaN"
| "js_sub _ NaN = NaN"
| "js_sub (Fin a) (Fin b) = Fin (a - b)"
| "js_sub PosInf PosInf = NaN"
| "js_sub NegInf NegInf = NaN"
| "js_sub PosInf _ = PosInf"
| "js_sub NegInf _ = NegInf"
| "js_sub _ PosInf = NegInf"
| "js_sub _ NegInf = PosInf"

fun js_abs :: "jsnum \<Rightarrow> jsnum" where
  "js_abs (Fin a) = Fin \<bar>a\<bar>"
| "js_abs PosInf = PosInf"
| "js_abs NegInf = PosInf"
| "js_abs NaN = NaN"


text \<open>\<open>Math.round\<close>: the nearest integer, a tie going up.\<close>

definition js_round :: "rat \<Rightarrow> int" where
  "js_round x = \<lfloor>x + 1 / 2\<rfloor>"

text \<open>
  \<open>String.prototype.trim\<close> and \<open>toLowerCase\<close> on the ASCII part of a string: the white space
  removed is space, tab, line feed, vertical tab, form feed and carriage return.
\<close>

definition isWhitespace :: "char \<Rightarrow> bool" where
  "isWhitespace c = (c \<in> set [CHR '' '', CHR 0x09, CHR 0x0A, CHR 0x0B, CHR 0x0C, CHR 0x0D])"

definition js_trim :: "string \<Rightarrow> string" where
  "js_trim s = rev (dropWhile isWhitespace (rev (dropWhile isWhitespace s)))"

definition lowerChar :: "char \<Rightarrow> char" where
  "lowerChar c =
     (if (65::nat) \<le> of_char c \<and> of_char c \<le> (90::nat) then char_of (of_char c + (32::nat))
      else c)"

definition js_toLowerCase :: "string \<Rightarrow> string" where
  "js_toLowerCase s = map lowerChar s"

text \<open>
  An answer value is \<open>string | number | boolean | string[] | null\<close> (\<open>answerValueValidator\<close>).
  The sixth value, \<open>AInherited\<close>, is never stored: it stands for what reading a key of a plain
  object returns when the object has no such key of its own and the key names a member of
  \<open>Object.prototype\<close>, a function or the prototype object itself.  It is not \<open>undefined\<close>, not
  \<open>null\<close>, not a string, a number, a boolean or an array.
\<close>

datatype answerValue =
  AString string | ANumber jsnum | ABool bool | AArray "string list" | ANull | AInherited

type_synonym answers = "string \<rightharpoonup> answerValue"

text \<open>
  The answers of a response or of a session are a plain object, and the code reads an answer
  as \<open>answers[field.id]\<close>: the value stored under the key; else, for the name of a member of
  \<open>Object.prototype\<close>, that member; else \<open>undefined\<close>, here \<open>None\<close>.
\<close>

definition objectPrototypeKeys :: "string list" where
  "objectPrototypeKeys =
     [''constructor'', ''__defineGetter__'', ''__defineSetter__'', ''hasOwnProperty'',
      ''__lookupGetter__'', ''__lookupSetter__'', ''isPrototypeOf'', ''propertyIsEnumerable'',
      ''toString'', ''valueOf'', ''__proto__'', ''toLocaleString'']"

definition propertyOf :: "answers \<Rightarrow> string \<Rightarrow> answerValue option" where
  "propertyOf answers key =
     (case answers key of
        Some v \<Rightarrow> Some v
      | None \<Rightarrow> if key \<in> set objectPrototypeKeys then Some AInherited else None)"

datatype fieldKind =
  short_text | long_text | single_select | multi_select | number | email | date | rating_1_5

record fieldOption =
  o_label :: string
  o_value :: string

record fieldValidation =
  v_minLength :: "nat option"
  v_maxLength :: "nat option"
  v_min :: "jsnum option"
  v_max :: "jsnum option"
  v_pattern :: "string option"

datatype correctness =
  text_exact string
| single_select_exact string
| multi_select_exact "string list"
| numeric_exact jsnum "jsnum option"

record surveyField =
  f_id :: string
  f_kind :: fieldKind
  f_label :: string
  f_required :: bool
  f_order :: int
  f_options :: "fieldOption list option"
  f_validation :: "fieldValidation option"
  f_correctness :: "correctness option"

text \<open>\<open>isAnswerPresent\<close> (lib/utils.ts).\<close>

fun isAnswerPresent :: "answerValue option \<Rightarrow> bool" where
  "isAnswerPresent None = False"
| "isAnswerPresent (Some ANull) = False"
| "isAnswerPresent (Some (AString s)) = (length (js_trim s) > 0)"
| "isAnswerPresent (Some (AArray xs)) = (length xs > 0)"
| "isAnswerPresent (Some _) = True"

section \<open>Grading (lib/scoring.ts)\<close>

definition normalizeText :: "string \<Rightarrow> string" where
  "normalizeText v = js_toLowerCase (js_trim v)"

text \<open>
  \<open>compareExactMultiSelect\<close>: both lists become sets; the sizes must agree and every expected
  value must be among the actual ones.
\<close>

definition compareExactMultiSelect :: "string list \<Rightarrow> string list \<Rightarrow> bool" where
  "compareExactMultiSelect expected actual =
     (if length (remdups expected) \<noteq> length (remdups actual) then False
      else list_all (\<lambda>v. v \<in> set actual) (remdups expected))"

fun evaluateCorrectnessMode :: "correctness \<Rightarrow> answerValue option \<Rightarrow> bool" where
  "evaluateCorrectnessMode (text_exact expectedText) answer =
     (case answer of
        Some (AString s) \<Rightarrow> normalizeText s = normalizeText expectedText
      | _ \<Rightarrow> False)"
| "evaluateCorrectnessMode (single_select_exact expectedOptionValue) answer =
     (case answer of
        Some (AString s) \<Rightarrow> s = expectedOptionValue
      | _ \<Rightarrow> False)"
| "evaluateCorrectnessMode (multi_select_exact expectedOptionValues) answer =
     (case answer of
        Some (AArray xs) \<Rightarrow> compareExactMultiSelect expectedOptionValues xs
      | _ \<Rightarrow> False)"
| "evaluateCorrectnessMode (numeric_exact expectedNumber tolerance) answer =
     (case answer of
        Some (ANumber n) \<Rightarrow>
          (if n = NaN then False
           else js_le (js_abs (js_sub n expectedNumber))
                  (case tolerance of None \<Rightarrow> Fin 0 | Some t \<Rightarrow> t))
      | _ \<Rightarrow> False)"

text \<open>\<open>evaluateFieldCorrectness\<close>: \<open>null\<close> (here \<open>None\<close>) for a field with no correctness rule.\<close>

definition evaluateFieldCorrectness :: "surveyField \<Rightarrow> answerValue option \<Rightarrow> bool option" where
  "evaluateFieldCorrectness fld answer =
     (case f_correctness fld of
        None \<Rightarrow> None
      | Some c \<Rightarrow> Some (evaluateCorrectnessMode c answer))"

record submissionGrading =
  gradableCount :: int
  correctCount :: int
  incorrectCount :: int
  scorePercent :: rat
  fieldResults :: "string \<rightharpoonup> bool"

text \<open>
  The \<open>for\<close> loop of \<open>gradeSubmission\<close>, on the three variables it updates:
  \<open>gradableCount\<close>, \<open>correctCount\<close> and \<open>fieldResults\<close>.
\<close>

fun gradeLoop ::
  "surveyField list \<Rightarrow> answers \<Rightarrow> int \<times> int \<times> (string \<rightharpoonup> bool) \<Rightarrow> int \<times> int \<times> (string \<rightharpoonup> bool)"
where
  "gradeLoop [] answers acc = acc"
| "gradeLoop (fld # rest) answers (g, c, results) =
     (if f_correctness fld = None then gradeLoop rest answers (g, c, results)
      else
        let isCorrect = (evaluateFieldCorrectness fld (propertyOf answers (f_id fld)) = Some True)
        in gradeLoop rest answers
             (g + 1, (if isCorrect then c + 1 else c), results(f_id fld \<mapsto> isCorrect)))"

definition gradeSubmission :: "surveyField list \<Rightarrow> answers \<Rightarrow> submissionGrading" where
  "gradeSubmission flds answers =
     (case gradeLoop flds answers (0, 0, Map.empty) of
        (g, c, results) \<Rightarrow>
          \<lparr> gradableCount = g,
            correctCount = c,
            incorrectCount = max 0 (g - c),
            scorePercent =
              (if g = 0 then 0 else of_int (js_round ((of_int c / of_int g) * 10000)) / 100),
            fieldResults = results \<rparr>)"

section \<open>Properties of grading\<close>

lemma gradeLoop_counts:
  "gradeLoop flds answers (g, c, results) = (g', c', results') \<Longrightarrow>
     g' = g + int (length (filter (\<lambda>fld. f_correctness fld \<noteq> None) flds)) \<and>
     c \<le> c' \<and> c' - c \<le> g' - g"
proof (induction flds arbitrary: g c results)
  case Nil
  then show ?case by simp
next
  case (Cons fld rest)
  show ?case
  proof (cases "f_correctness fld = None")
    case True
    with Cons.prems have "gradeLoop rest answers (g, c, results) = (g', c', results')"
      by simp
    from Cons.IH [OF this] True show ?thesis by simp
  next
    case False
    define isCorrect where
      "isCorrect = (evaluateFieldCorrectness fld (propertyOf answers (f_id fld)) = Some True)"
    from Cons.prems False have
      "gradeLoop rest answers
         (g + 1, (if isCorrect then c + 1 else c), results(f_id fld \<mapsto> isCorrect))
       = (g', c', results')"
      by (simp add: isCorrect_def Let_def)
    from Cons.IH [OF this] False show ?thesis
      by (auto split: if_splits)
  qed
qed

text \<open>
  Claim C3.  For every surveyField list and answer map, the grading returned by \<open>gradeSubmission\<close> has
  \<open>correctCount + incorrectCount = gradableCount\<close>; \<open>gradableCount\<close> is the number of fields that
  carry a correctness rule; and \<open>scorePercent\<close> is \<open>round(correctCount / gradableCount * 10000) / 100\<close>
  when there is a gradable field and \<open>0\<close> when there is none.
\<close>

theorem gradeSubmission_counts_and_score:
  "correctCount (gradeSubmission flds answers) + incorrectCount (gradeSubmission flds answers)
     = gradableCount (gradeSubmission flds answers)
   \<and> gradableCount (gradeSubmission flds answers)
     = int (length (filter (\<lambda>fld. f_correctness fld \<noteq> None) flds))
   \<and> scorePercent (gradeSubmission flds answers)
     = (if gradableCount (gradeSubmission flds answers) = 0 then 0
        else of_int (js_round (of_int (correctCount (gradeSubmission flds answers))
                               / of_int (gradableCount (gradeSubmission flds answers)) * 10000))
             / 100)"
proof -
  obtain g c results where loop: "gradeLoop flds answers (0, 0, Map.empty) = (g, c, results)"
    by (cases "gradeLoop flds answers (0, 0, Map.empty)") auto
  from gradeLoop_counts [OF loop]
  have g: "g = int (length (filter (\<lambda>fld. f_correctness fld \<noteq> None) flds))"
    and c: "0 \<le> c" "c \<le> g"
    by auto
  from c have "c + max 0 (g - c) = g" by simp
  with g loop show ?thesis
    by (simp add: gradeSubmission_def)
qed

section \<open>The analytics outbox (lib/domain.ts, analytics.ts)\<close>

datatype outboxStatus = pending | sent | failed

record outboxRow =
  ob_eventName :: string
  ob_distinctId :: string
  ob_status :: outboxStatus
  ob_attemptCount :: nat
  ob_nextAttemptAt :: int
  ob_createdAt :: int
  ob_sentAt :: "int option"
  ob_lastError :: "string option"

text \<open>\<open>enqueueAnalyticsEvent\<close>: the row it inserts (the event's properties are left out).\<close>

definition enqueueAnalyticsEvent :: "int \<Rightarrow> string \<Rightarrow> string \<Rightarrow> outboxRow" where
  "enqueueAnalyticsEvent now eventName distinctId =
     \<lparr> ob_eventName = eventName, ob_distinctId = distinctId, ob_status = pending,
       ob_attemptCount = 0, ob_nextAttemptAt = now, ob_createdAt = now,
       ob_sentAt = None, ob_lastError = None \<rparr>"

text \<open>
  \<open>recordOutboxDispatch\<close> on the row that \<open>ctx.db.get\<close> returned: the patch of the success
  branch, or the patch of the failure branch with
  \<open>retryDelayMs = Math.min(2 ** Math.min(attemptCount, 10) * 1000, 30 * 60 * 1000)\<close>.
\<close>

definition retryDelayMs :: "nat \<Rightarrow> int" where
  "retryDelayMs attemptCount = min (2 ^ (min attemptCount 10) * 1000) (30 * 60 * 1000)"

definition dispatchRow :: "int \<Rightarrow> bool \<Rightarrow> string option \<Rightarrow> outboxRow \<Rightarrow> outboxRow" where
  "dispatchRow now success errorMessage row =
     (if success then
        row\<lparr> ob_status := sent, ob_sentAt := Some now,
             ob_attemptCount := ob_attemptCount row + 1, ob_lastError := None \<rparr>
      else
        let attemptCount = ob_attemptCount row + 1;
            shouldFailPermanently = (attemptCount \<ge> 8)
        in row\<lparr> ob_status := (if shouldFailPermanently then failed else pending),
                ob_attemptCount := attemptCount,
                ob_nextAttemptAt := now + retryDelayMs attemptCount,
                ob_lastError := errorMessage \<rparr>)"



text \<open>
  The rows the program can hold: one is born in \<open>enqueueAnalyticsEvent\<close>, and the only writer
  afterwards is \<open>recordOutboxDispatch\<close>.
\<close>

inductive outboxReachable :: "outboxRow \<Rightarrow> bool" where
  enqueued: "outboxReachable (enqueueAnalyticsEvent now eventName distinctId)"
| dispatched: "outboxReachable row \<Longrightarrow> outboxReachable (dispatchRow now success errorMessage row)"

section \<open>Properties of the outbox\<close>

lemma pending_below_ceiling:
  "outboxReachable row \<Longrightarrow> ob_status row = pending \<Longrightarrow> ob_attemptCount row < 8"
proof (induction rule: outboxReachable.induct)
  case (enqueued now eventName distinctId)
  then show ?case by (simp add: enqueueAnalyticsEvent_def)
next
  case (dispatched row now success errorMessage)
  then show ?case
    by (auto simp: dispatchRow_def Let_def split: if_splits)
qed

lemma retryDelayMs_small:
  assumes "n \<le> 10"
  shows "retryDelayMs n = 2 ^ n * 1000"
proof -
  have "(2::int) ^ n \<le> 2 ^ 10" using assms by (intro power_increasing) auto
  then show ?thesis using assms by (simp add: retryDelayMs_def min_def)
qed






text \<open>
  The rows the program itself writes never get that far: a row it holds as pending has been
  tried fewer than eight times, so its new count is at most 8 and its delay is
  \<open>2 ^ attemptCount\<close> seconds.
\<close>

lemma reachable_pending_delay:
  assumes "outboxReachable row" and "ob_status row = pending"
  shows "ob_nextAttemptAt (dispatchRow now False errorMessage row)
           = now + 2 ^ (ob_attemptCount row + 1) * 1000"
proof -
  from pending_below_ceiling [OF assms] have "ob_attemptCount row + 1 \<le> 10" by simp
  from retryDelayMs_small [OF this] show ?thesis
    by (simp add: dispatchRow_def Let_def)
qed

section \<open>The database and the rollup tables (schema.ts)\<close>

text \<open>
  Errors are the \<open>code\<close> of the \<open>ConvexError\<close> thrown; \<open>NOT_UNIQUE\<close> stands for the exception of
  \<open>.unique()\<close> on a query with more than one result.
\<close>

datatype error =
  INVALID_DATE | INVALID_DATE_RANGE | ANALYTICS_WINDOW_TOO_LARGE | ANALYTICS_EXPORT_TOO_LARGE
| UNAUTHORIZED | FORBIDDEN | NOT_FOUND | FIELD_NOT_FOUND | NOT_UNIQUE
| SESSION_COMPLETED | INVITE_EXPIRED | INVITE_EXHAUSTED | INVITE_UNAVAILABLE
| MISSING_REQUIRED_FIELD | INVALID_ANSWER string
| INVALID_RESPONDENT_KEY | INVALID_INVITE | INVALID_FIELD | ZOD_ERROR

text \<open>
  A date key is the ISO date of a UTC day; the model keeps the number of the day (days since
  1970-01-01), and a date string that a caller passes is given by what luxon's
  \<open>DateTime.fromISO\<close> makes of it: \<open>None\<close> when it is not valid, the day otherwise.
\<close>

type_synonym dateKey = int
type_synonym dateInput = "int option"

definition msPerDay :: int where
  "msPerDay = 86400000"

definition startOfDay :: "dateKey \<Rightarrow> int" where
  "startOfDay d = d * msPerDay"

definition endOfDay :: "dateKey \<Rightarrow> int" where
  "endOfDay d = d * msPerDay + (msPerDay - 1)"

definition dateKeyFromTimestamp :: "int \<Rightarrow> dateKey" where
  "dateKeyFromTimestamp ts = ts div msPerDay"

definition normalizeDateKey :: "dateInput \<Rightarrow> error + dateKey" where
  "normalizeDateKey d = (case d of None \<Rightarrow> Inl INVALID_DATE | Some k \<Rightarrow> Inr k)"

record surveyVersion =
  sv_surveyId :: nat
  sv_version :: int
  sv_fields :: "surveyField list"

record surveyResponse =
  r_surveyId :: nat
  r_surveyVersionId :: nat
  r_submittedAt :: int
  r_answers :: answers
  r_grading :: "submissionGrading option"

record metricsRow =
  m_surveyId :: nat
  m_dateKey :: dateKey
  m_started :: int
  m_completed :: int
  m_idle :: int
  m_abandoned :: int
  m_reactivated :: int
  m_updatedAt :: int

record analyticsRow =
  an_surveyId :: nat
  an_dateKey :: dateKey
  an_started :: int
  an_completed :: int
  an_idle :: int
  an_abandoned :: int
  an_reactivated :: int
  an_avgScorePercent :: rat
  an_totalGraded :: int
  an_updatedAt :: int

record fieldRow =
  fr_surveyId :: nat
  fr_fieldId :: string
  fr_dateKey :: dateKey
  fr_reachedCount :: int
  fr_answeredCount :: int
  fr_dropoffCount :: int
  fr_updatedAt :: int

record bucketRow =
  b_surveyId :: nat
  b_fieldId :: string
  b_dateKey :: dateKey
  b_bucketKey :: string
  b_bucketLabel :: string
  b_count :: int
  b_updatedAt :: int

record textRow =
  t_surveyId :: nat
  t_fieldId :: string
  t_dateKey :: dateKey
  t_topPhrases :: "(string \<times> int) list"
  t_sampledSnippets :: "(string \<times> int) list"
  t_updatedAt :: int

record survey =
  sy_createdByUserId :: nat

text \<open>
  A table whose rows are patched or deleted by \<open>_id\<close> is a list of documents with their ids, in
  the order of creation (the order in which an index returns rows of equal key).
\<close>

type_synonym 'r table = "(nat \<times> 'r) list"

record database =
  db_surveys :: "nat \<rightharpoonup> survey"
  db_versions :: "surveyVersion table"
  db_responses :: "surveyResponse list"
  db_metricsDaily :: "metricsRow list"
  db_analyticsDaily :: "analyticsRow table"
  db_fieldDaily :: "fieldRow table"
  db_bucketsDaily :: "bucketRow table"
  db_textDaily :: "textRow table"
  db_nextId :: nat

definition tblDelete :: "nat \<Rightarrow> 'r table \<Rightarrow> 'r table" where
  "tblDelete i tbl = filter (\<lambda>doc. fst doc \<noteq> i) tbl"

definition tblPatch :: "nat \<Rightarrow> 'r \<Rightarrow> 'r table \<Rightarrow> 'r table" where
  "tblPatch i row tbl = map (\<lambda>doc. if fst doc = i then (i, row) else doc) tbl"

text \<open>
  A JavaScript \<open>Map\<close> keeps its keys in insertion order: \<open>set\<close> replaces the value of a key in
  place or appends a new key, \<open>delete\<close> removes the key.
\<close>

fun mapSet :: "'k \<Rightarrow> 'v \<Rightarrow> ('k \<times> 'v) list \<Rightarrow> ('k \<times> 'v) list" where
  "mapSet k v [] = [(k, v)]"
| "mapSet k v (e # rest) = (if fst e = k then (k, v) # rest else e # mapSet k v rest)"

definition mapDelete :: "'k \<Rightarrow> ('k \<times> 'v) list \<Rightarrow> ('k \<times> 'v) list" where
  "mapDelete k m = filter (\<lambda>e. fst e \<noteq> k) m"

definition mapFromEntries :: "('k \<times> 'v) list \<Rightarrow> ('k \<times> 'v) list" where
  "mapFromEntries entries = fold (\<lambda>e m. mapSet (fst e) (snd e) m) entries []"

section \<open>The daily rebuild (lib/analytics\_materialization.ts)\<close>

subsection \<open>Bucket keys\<close>

text \<open>
  \<open>formatNumberBucket\<close>: \<open>String(value)\<close> for an integer and \<open>value.toFixed(2)\<close> otherwise.  The
  decimal digits are produced here; the exponent notation JavaScript switches to from \<open>1e21\<close> on
  is not modelled.
\<close>

definition digitChar :: "nat \<Rightarrow> char" where
  "digitChar d = char_of (48 + d)"

fun natDigits :: "nat \<Rightarrow> string" where
  "natDigits n = (if n < 10 then [digitChar n] else natDigits (n div 10) @ [digitChar (n mod 10)])"

definition intToString :: "int \<Rightarrow> string" where
  "intToString z = (if z < 0 then CHR ''-'' # natDigits (nat (- z)) else natDigits (nat z))"

definition toFixed2 :: "rat \<Rightarrow> string" where
  "toFixed2 q =
     (let n = nat \<lfloor>\<bar>q\<bar> * 100 + 1 / 2\<rfloor>
      in (if q < 0 then [CHR ''-''] else []) @ natDigits (n div 100) @ [CHR ''.'']
           @ [digitChar ((n mod 100) div 10), digitChar (n mod 10)])"

fun formatNumberBucket :: "jsnum \<Rightarrow> string" where
  "formatNumberBucket (Fin q) = (if q = of_int \<lfloor>q\<rfloor> then intToString \<lfloor>q\<rfloor> else toFixed2 q)"
| "formatNumberBucket PosInf = ''Infinity''"
| "formatNumberBucket NegInf = ''-Infinity''"
| "formatNumberBucket NaN = ''NaN''"

definition optionEntries :: "surveyField \<Rightarrow> (string \<times> string) list" where
  "optionEntries fld =
     map (\<lambda>opt. (o_value opt, o_label opt)) (case f_options fld of None \<Rightarrow> [] | Some os \<Rightarrow> os)"

definition labelOr :: "(string \<times> string) list \<Rightarrow> string \<Rightarrow> string" where
  "labelOr labels v = (case map_of labels v of None \<Rightarrow> v | Some l \<Rightarrow> l)"

text \<open>\<open>bucketEntriesForAnswer\<close>: the (key, label) pairs an answer is counted under.\<close>

definition bucketEntriesForAnswer ::
  "surveyField \<Rightarrow> answerValue option \<Rightarrow> (string \<times> string) list" where
  "bucketEntriesForAnswer fld answer =
     (let optionLabelByValue = mapFromEntries (optionEntries fld) in
      case f_kind fld of
        single_select \<Rightarrow>
          (case answer of
             Some (AString s) \<Rightarrow>
               (let v = js_trim s in if v = [] then [] else [(v, labelOr optionLabelByValue v)])
           | _ \<Rightarrow> [])
      | multi_select \<Rightarrow>
          (case answer of
             Some (AArray xs) \<Rightarrow>
               map (\<lambda>entry. (entry, labelOr optionLabelByValue entry))
                 (filter (\<lambda>entry. length (js_trim entry) > 0) xs)
           | _ \<Rightarrow> [])
      | number \<Rightarrow>
          (case answer of
             Some (ANumber n) \<Rightarrow>
               (if n = NaN then [] else [(formatNumberBucket n, formatNumberBucket n)])
           | _ \<Rightarrow> [])
      | rating_1_5 \<Rightarrow>
          (case answer of
             Some (ANumber n) \<Rightarrow>
               (if n = NaN then [] else [(formatNumberBucket n, formatNumberBucket n)])
           | _ \<Rightarrow> [])
      | _ \<Rightarrow> [(''__provided__'', ''Provided'')])"

subsection \<open>Aggregation over the day's responses\<close>

record fieldAggregate =
  a_fieldId :: string
  a_label :: string
  a_kind :: fieldKind
  a_order :: int
  a_reachedCount :: int
  a_answeredCount :: int
  a_bucketMap :: "(string \<times> (string \<times> int)) list"
  a_textAnswers :: "string list"
  a_optionOrder :: "string list"
  a_optionLabels :: "(string \<times> string) list"

type_synonym aggregates = "(string \<times> fieldAggregate) list"

definition getOrCreateFieldAggregate :: "aggregates \<Rightarrow> surveyField \<Rightarrow> fieldAggregate" where
  "getOrCreateFieldAggregate aggs fld =
     (case map_of aggs (f_id fld) of
        Some existing \<Rightarrow> existing
      | None \<Rightarrow>
          \<lparr> a_fieldId = f_id fld, a_label = f_label fld, a_kind = f_kind fld,
            a_order = f_order fld, a_reachedCount = 0, a_answeredCount = 0,
            a_bucketMap = [], a_textAnswers = [],
            a_optionOrder = map fst (optionEntries fld),
            a_optionLabels = mapFromEntries (optionEntries fld) \<rparr>)"

text \<open>
  The first inner loop of the rebuild: \<open>maxReachedOrder\<close> starts at \<open>0\<close> and becomes the largest
  \<open>order\<close> among the fields whose answer is present.
\<close>

fun maxReachedOrderLoop :: "surveyField list \<Rightarrow> answers \<Rightarrow> int \<Rightarrow> int" where
  "maxReachedOrderLoop [] answers maxReachedOrder = maxReachedOrder"
| "maxReachedOrderLoop (fld # rest) answers maxReachedOrder =
     (if isAnswerPresent (propertyOf answers (f_id fld))
      then maxReachedOrderLoop rest answers (max maxReachedOrder (f_order fld))
      else maxReachedOrderLoop rest answers maxReachedOrder)"

definition bumpBucket ::
  "string \<times> string \<Rightarrow> (string \<times> (string \<times> int)) list \<Rightarrow> (string \<times> (string \<times> int)) list" where
  "bumpBucket entry bucketMap =
     (case map_of bucketMap (fst entry) of
        Some bucket \<Rightarrow> mapSet (fst entry) (fst bucket, snd bucket + 1) bucketMap
      | None \<Rightarrow> mapSet (fst entry) (snd entry, 1) bucketMap)"

definition isTextKind :: "fieldKind \<Rightarrow> bool" where
  "isTextKind k = (k = short_text \<or> k = long_text)"

text \<open>The body of the second inner loop, for one field of one response.\<close>

definition aggregateField :: "int \<Rightarrow> answers \<Rightarrow> surveyField \<Rightarrow> aggregates \<Rightarrow> aggregates" where
  "aggregateField maxReachedOrder answers fld aggs =
     (let aggregate = getOrCreateFieldAggregate aggs fld;
          reached = (if f_order fld \<le> maxReachedOrder
                     then aggregate\<lparr> a_reachedCount := a_reachedCount aggregate + 1 \<rparr>
                     else aggregate);
          answer = propertyOf answers (f_id fld)
      in if \<not> isAnswerPresent answer then mapSet (f_id fld) reached aggs
         else
           let answered = reached\<lparr> a_answeredCount := a_answeredCount reached + 1 \<rparr>;
               bucketed = answered\<lparr> a_bucketMap :=
                            fold bumpBucket (bucketEntriesForAnswer fld answer)
                              (a_bucketMap answered) \<rparr>;
               texted =
                 (case answer of
                    Some (AString s) \<Rightarrow>
                      (if isTextKind (f_kind fld) \<and> length (js_trim s) > 0
                       then bucketed\<lparr> a_textAnswers := a_textAnswers bucketed @ [s] \<rparr>
                       else bucketed)
                  | _ \<Rightarrow> bucketed)
           in mapSet (f_id fld) texted aggs)"

text \<open>One response: the fields of its version, sorted by \<open>order\<close> (the sort is stable).\<close>

definition aggregateResponse ::
  "(nat \<rightharpoonup> surveyVersion) \<Rightarrow> surveyResponse \<Rightarrow> aggregates \<Rightarrow> aggregates" where
  "aggregateResponse versions response aggs =
     (case versions (r_surveyVersionId response) of
        None \<Rightarrow> aggs
      | Some version \<Rightarrow>
          (let flds = sort_key f_order (sv_fields version) in
           if flds = [] then aggs
           else
             let maxReachedOrder = maxReachedOrderLoop flds (r_answers response) 0
             in fold (aggregateField maxReachedOrder (r_answers response)) flds aggs))"

definition isGraded :: "surveyResponse \<Rightarrow> bool" where
  "isGraded response =
     (case r_grading response of None \<Rightarrow> False | Some g \<Rightarrow> gradableCount g > 0)"

definition gradedScore :: "surveyResponse \<Rightarrow> rat" where
  "gradedScore response = (case r_grading response of None \<Rightarrow> 0 | Some g \<Rightarrow> scorePercent g)"

text \<open>The outer loop: \<open>totalGraded\<close>, \<open>sumScorePercent\<close> and the field aggregates.\<close>

fun aggregateResponses ::
  "(nat \<rightharpoonup> surveyVersion) \<Rightarrow> surveyResponse list \<Rightarrow> int \<times> rat \<times> aggregates
     \<Rightarrow> int \<times> rat \<times> aggregates" where
  "aggregateResponses versions [] acc = acc"
| "aggregateResponses versions (response # rest) (totalGraded, sumScorePercent, aggs) =
     aggregateResponses versions rest
       ((if isGraded response then totalGraded + 1 else totalGraded),
        (if isGraded response then sumScorePercent + gradedScore response else sumScorePercent),
        aggregateResponse versions response aggs)"

text \<open>\<open>getResponsesForSurveyDate\<close>.\<close>

definition getResponsesForSurveyDate ::
  "database \<Rightarrow> nat \<Rightarrow> dateKey \<Rightarrow> surveyResponse list" where
  "getResponsesForSurveyDate db surveyId normalizedDate =
     filter (\<lambda>response. r_submittedAt response \<ge> startOfDay normalizedDate
                        \<and> r_submittedAt response \<le> endOfDay normalizedDate)
       (filter (\<lambda>response. r_surveyId response = surveyId) (db_responses db))"

subsection \<open>The rows computed from the aggregates\<close>

text \<open>
  The rows are built with \<open>surveyId\<close> and \<open>dateKey\<close> already in them, as the payloads of the sync
  functions have them.
\<close>

definition fieldRowOf :: "nat \<Rightarrow> dateKey \<Rightarrow> int \<Rightarrow> fieldAggregate \<Rightarrow> fieldRow" where
  "fieldRowOf surveyId normalizedDate now aggregate =
     \<lparr> fr_surveyId = surveyId, fr_fieldId = a_fieldId aggregate, fr_dateKey = normalizedDate,
       fr_reachedCount = a_reachedCount aggregate,
       fr_answeredCount = a_answeredCount aggregate,
       fr_dropoffCount = max (a_reachedCount aggregate - a_answeredCount aggregate) 0,
       fr_updatedAt = now \<rparr>"

definition fieldRowsOf :: "nat \<Rightarrow> dateKey \<Rightarrow> int \<Rightarrow> aggregates \<Rightarrow> fieldRow list" where
  "fieldRowsOf surveyId normalizedDate now aggs =
     map (fieldRowOf surveyId normalizedDate now) (sort_key a_order (map snd aggs))"

definition compositeKey :: "bucketRow \<Rightarrow> string" where
  "compositeKey row = b_fieldId row @ ''::'' @ b_bucketKey row"

definition bucketRowOf ::
  "nat \<Rightarrow> dateKey \<Rightarrow> int \<Rightarrow> string \<Rightarrow> string \<times> (string \<times> int) \<Rightarrow> bucketRow" where
  "bucketRowOf surveyId normalizedDate now fieldId entry =
     \<lparr> b_surveyId = surveyId, b_fieldId = fieldId, b_dateKey = normalizedDate,
       b_bucketKey = fst entry, b_bucketLabel = fst (snd entry), b_count = snd (snd entry),
       b_updatedAt = now \<rparr>"

text \<open>
  One turn of a padding loop: a zero-count row for the option (or rating) \<open>v\<close> unless a row of
  the field has that key already.
\<close>

definition padBucket ::
  "nat \<Rightarrow> dateKey \<Rightarrow> int \<Rightarrow> string \<Rightarrow> (string \<times> string) list \<Rightarrow> string \<Rightarrow> bucketRow list
     \<Rightarrow> bucketRow list" where
  "padBucket surveyId normalizedDate now fieldId labels v rows =
     (if list_ex (\<lambda>row. compositeKey row = fieldId @ ''::'' @ v) rows then rows
      else rows @ [\<lparr> b_surveyId = surveyId, b_fieldId = fieldId, b_dateKey = normalizedDate,
                     b_bucketKey = v, b_bucketLabel = labelOr labels v, b_count = 0,
                     b_updatedAt = now \<rparr>])"

definition bucketRowsOfAggregate ::
  "nat \<Rightarrow> dateKey \<Rightarrow> int \<Rightarrow> fieldAggregate \<Rightarrow> bucketRow list" where
  "bucketRowsOfAggregate surveyId normalizedDate now aggregate =
     (let rows = map (bucketRowOf surveyId normalizedDate now (a_fieldId aggregate))
                   (a_bucketMap aggregate);
          withOptions =
            (if a_kind aggregate = single_select \<or> a_kind aggregate = multi_select
             then fold (padBucket surveyId normalizedDate now (a_fieldId aggregate)
                          (a_optionLabels aggregate))
                    (a_optionOrder aggregate) rows
             else rows)
      in if a_kind aggregate = rating_1_5
         then fold (padBucket surveyId normalizedDate now (a_fieldId aggregate) [])
                [''1'', ''2'', ''3'', ''4'', ''5''] withOptions
         else withOptions)"

definition bucketRowsOf :: "nat \<Rightarrow> dateKey \<Rightarrow> int \<Rightarrow> aggregates \<Rightarrow> bucketRow list" where
  "bucketRowsOf surveyId normalizedDate now aggs =
     concat (map (bucketRowsOfAggregate surveyId normalizedDate now) (map snd aggs))"

text \<open>
  \<open>topPhraseRows\<close> and \<open>snippetRows\<close> rest on regular expressions and on \<open>localeCompare\<close>, which are
  the JavaScript engine's; they are parameters of the rebuild.
\<close>

record textFns =
  topPhraseRows :: "string list \<Rightarrow> (string \<times> int) list"
  snippetRows :: "string list \<Rightarrow> (string \<times> int) list"

definition textRowsOf :: "textFns \<Rightarrow> nat \<Rightarrow> dateKey \<Rightarrow> int \<Rightarrow> aggregates \<Rightarrow> textRow list" where
  "textRowsOf lib surveyId normalizedDate now aggs =
     map (\<lambda>aggregate.
            \<lparr> t_surveyId = surveyId, t_fieldId = a_fieldId aggregate, t_dateKey = normalizedDate,
              t_topPhrases = topPhraseRows lib (a_textAnswers aggregate),
              t_sampledSnippets = snippetRows lib (a_textAnswers aggregate),
              t_updatedAt = now \<rparr>)
       (filter (\<lambda>aggregate. isTextKind (a_kind aggregate)) (map snd aggs))"

subsection \<open>Writing the rows\<close>

text \<open>
  \<open>syncDailyFieldRows\<close>, \<open>syncDailyBucketRows\<close> and \<open>syncDailyTextRows\<close> are one procedure on three
  tables, with the key of a row (\<open>fieldId\<close>, or \<open>fieldId::bucketKey\<close>) as the only difference.  Its
  three loops: the rows found are entered in \<open>existingByKey\<close>, a row whose key is there already
  being deleted; each computed row patches the row of its key and takes the key out of the map,
  or is inserted; the rows left in the map are deleted.
\<close>

fun dedupExisting ::
  "('r \<Rightarrow> string) \<Rightarrow> 'r table \<Rightarrow> (string \<times> (nat \<times> 'r)) list \<Rightarrow> 'r table
     \<Rightarrow> (string \<times> (nat \<times> 'r)) list \<times> 'r table" where
  "dedupExisting key [] existingByKey tbl = (existingByKey, tbl)"
| "dedupExisting key (doc # rest) existingByKey tbl =
     (if map_of existingByKey (key (snd doc)) \<noteq> None
      then dedupExisting key rest existingByKey (tblDelete (fst doc) tbl)
      else dedupExisting key rest (mapSet (key (snd doc)) doc existingByKey) tbl)"

fun upsertRows ::
  "('r \<Rightarrow> string) \<Rightarrow> 'r list \<Rightarrow> (string \<times> (nat \<times> 'r)) list \<Rightarrow> 'r table \<times> nat
     \<Rightarrow> (string \<times> (nat \<times> 'r)) list \<times> 'r table \<times> nat" where
  "upsertRows key [] existingByKey st = (existingByKey, st)"
| "upsertRows key (row # rest) existingByKey (tbl, nextId) =
     (case map_of existingByKey (key row) of
        Some existingRow \<Rightarrow>
          upsertRows key rest (mapDelete (key row) existingByKey)
            (tblPatch (fst existingRow) row tbl, nextId)
      | None \<Rightarrow> upsertRows key rest existingByKey (tbl @ [(nextId, row)], Suc nextId))"

definition deleteStale :: "(string \<times> (nat \<times> 'r)) list \<Rightarrow> 'r table \<Rightarrow> 'r table" where
  "deleteStale existingByKey tbl = fold (\<lambda>entry t. tblDelete (fst (snd entry)) t) existingByKey tbl"

definition syncRows ::
  "('r \<Rightarrow> string) \<Rightarrow> ('r \<Rightarrow> bool) \<Rightarrow> 'r list \<Rightarrow> 'r table \<times> nat \<Rightarrow> 'r table \<times> nat" where
  "syncRows key inScope rows st =
     (case dedupExisting key (filter (\<lambda>doc. inScope (snd doc)) (fst st)) [] (fst st) of
        (existingByKey, tbl1) \<Rightarrow>
          (case upsertRows key rows existingByKey (tbl1, snd st) of
             (remaining, tbl2, nextId2) \<Rightarrow> (deleteStale remaining tbl2, nextId2)))"

definition syncDailyFieldRows :: "database \<Rightarrow> nat \<Rightarrow> dateKey \<Rightarrow> fieldRow list \<Rightarrow> database" where
  "syncDailyFieldRows db surveyId normalizedDate rows =
     (case syncRows fr_fieldId (\<lambda>row. fr_surveyId row = surveyId \<and> fr_dateKey row = normalizedDate)
             rows (db_fieldDaily db, db_nextId db) of
        (tbl, nextId) \<Rightarrow> db\<lparr> db_fieldDaily := tbl, db_nextId := nextId \<rparr>)"

definition syncDailyBucketRows :: "database \<Rightarrow> nat \<Rightarrow> dateKey \<Rightarrow> bucketRow list \<Rightarrow> database" where
  "syncDailyBucketRows db surveyId normalizedDate rows =
     (case syncRows compositeKey (\<lambda>row. b_surveyId row = surveyId \<and> b_dateKey row = normalizedDate)
             rows (db_bucketsDaily db, db_nextId db) of
        (tbl, nextId) \<Rightarrow> db\<lparr> db_bucketsDaily := tbl, db_nextId := nextId \<rparr>)"

definition syncDailyTextRows :: "database \<Rightarrow> nat \<Rightarrow> dateKey \<Rightarrow> textRow list \<Rightarrow> database" where
  "syncDailyTextRows db surveyId normalizedDate rows =
     (case syncRows t_fieldId (\<lambda>row. t_surveyId row = surveyId \<and> t_dateKey row = normalizedDate)
             rows (db_textDaily db, db_nextId db) of
        (tbl, nextId) \<Rightarrow> db\<lparr> db_textDaily := tbl, db_nextId := nextId \<rparr>)"

text \<open>
  \<open>upsertSurveyAnalyticsDailyRow\<close>: insert when the day has no row, else patch the first row found
  and delete the others.
\<close>

definition upsertSurveyAnalyticsDailyRow :: "database \<Rightarrow> analyticsRow \<Rightarrow> database" where
  "upsertSurveyAnalyticsDailyRow db row =
     (case filter (\<lambda>doc. an_surveyId (snd doc) = an_surveyId row
                         \<and> an_dateKey (snd doc) = an_dateKey row) (db_analyticsDaily db) of
        [] \<Rightarrow> db\<lparr> db_analyticsDaily := db_analyticsDaily db @ [(db_nextId db, row)],
                  db_nextId := Suc (db_nextId db) \<rparr>
      | first # duplicates \<Rightarrow>
          db\<lparr> db_analyticsDaily :=
                fold (\<lambda>duplicate t. tblDelete (fst duplicate) t) duplicates
                  (tblPatch (fst first) row (db_analyticsDaily db)) \<rparr>)"

definition uniqueRow :: "'a list \<Rightarrow> error + 'a option" where
  "uniqueRow xs = (case xs of [] \<Rightarrow> Inr None | [x] \<Rightarrow> Inr (Some x) | _ \<Rightarrow> Inl NOT_UNIQUE)"

definition metricsFor :: "database \<Rightarrow> nat \<Rightarrow> dateKey \<Rightarrow> error + metricsRow option" where
  "metricsFor db surveyId normalizedDate =
     uniqueRow (filter (\<lambda>row. m_surveyId row = surveyId \<and> m_dateKey row = normalizedDate)
                  (db_metricsDaily db))"

definition metricOr0 :: "(metricsRow \<Rightarrow> int) \<Rightarrow> metricsRow option \<Rightarrow> int" where
  "metricOr0 sel metrics = (case metrics of None \<Rightarrow> 0 | Some row \<Rightarrow> sel row)"

definition analyticsRowOf ::
  "nat \<Rightarrow> dateKey \<Rightarrow> int \<Rightarrow> metricsRow option \<Rightarrow> nat \<Rightarrow> int \<Rightarrow> rat \<Rightarrow> analyticsRow" where
  "analyticsRowOf surveyId normalizedDate now metrics responseCount totalGraded sumScorePercent =
     (let completedCount = max (metricOr0 m_completed metrics) (int responseCount);
          startedCount = max (metricOr0 m_started metrics) completedCount;
          avgScorePercent =
            (if totalGraded > 0
             then of_int (js_round ((sumScorePercent / of_int totalGraded) * 100)) / 100
             else 0)
      in \<lparr> an_surveyId = surveyId, an_dateKey = normalizedDate, an_started = startedCount,
           an_completed = completedCount, an_idle = metricOr0 m_idle metrics,
           an_abandoned = metricOr0 m_abandoned metrics,
           an_reactivated = metricOr0 m_reactivated metrics,
           an_avgScorePercent = avgScorePercent, an_totalGraded = totalGraded,
           an_updatedAt = now \<rparr>)"

text \<open>
  \<open>rebuildDailyMaterializedAnalytics\<close>, with \<open>now\<close> given (\<open>args.now\<close>) and \<open>includeTextInsights\<close>
  as passed.
\<close>

definition rebuildDailyMaterializedAnalytics ::
  "textFns \<Rightarrow> database \<Rightarrow> nat \<Rightarrow> dateInput \<Rightarrow> bool \<Rightarrow> int \<Rightarrow> error + database" where
  "rebuildDailyMaterializedAnalytics lib db surveyId dateKey includeTextInsights now =
     (case normalizeDateKey dateKey of
        Inl e \<Rightarrow> Inl e
      | Inr normalizedDate \<Rightarrow>
          (let responses = getResponsesForSurveyDate db surveyId normalizedDate in
           case aggregateResponses (map_of (db_versions db)) responses (0, 0, []) of
             (totalGraded, sumScorePercent, fieldAggregates) \<Rightarrow>
               (case metricsFor db surveyId normalizedDate of
                  Inl e \<Rightarrow> Inl e
                | Inr metrics \<Rightarrow>
                    (let db1 = upsertSurveyAnalyticsDailyRow db
                                 (analyticsRowOf surveyId normalizedDate now metrics
                                    (length responses) totalGraded sumScorePercent);
                         db2 = syncDailyFieldRows db1 surveyId normalizedDate
                                 (fieldRowsOf surveyId normalizedDate now fieldAggregates);
                         db3 = syncDailyBucketRows db2 surveyId normalizedDate
                                 (bucketRowsOf surveyId normalizedDate now fieldAggregates)
                     in Inr (if includeTextInsights
                             then syncDailyTextRows db3 surveyId normalizedDate
                                    (textRowsOf lib surveyId normalizedDate now fieldAggregates)
                             else db3)))))"

section \<open>Properties of the daily rebuild\<close>

subsection \<open>Reach\<close>

text \<open>
  \<open>reachedCountOf\<close> reads the \<open>reachedCount\<close> an aggregate map holds for a field id, \<open>0\<close> when
  the map has no aggregate for it.
\<close>

lemma map_of_mapSet: "map_of (mapSet k v m) k' = (if k' = k then Some v else map_of m k')"
  by (induction m) auto

lemma maxReachedOrderLoop_le:
  "(x \<le> maxReachedOrderLoop flds answers m) =
     (x \<le> m \<or> (\<exists>g\<in>set flds. isAnswerPresent (propertyOf answers (f_id g)) \<and> x \<le> f_order g))"
  by (induction flds arbitrary: m) (auto simp: le_max_iff_disj)

definition reachedCountOf :: "aggregates \<Rightarrow> string \<Rightarrow> int" where
  "reachedCountOf aggs fieldId =
     (case map_of aggs fieldId of None \<Rightarrow> 0 | Some aggregate \<Rightarrow> a_reachedCount aggregate)"

lemma reachedCountOf_aggregateField:
  "reachedCountOf (aggregateField m answers fld aggs) k =
     reachedCountOf aggs k + (if k = f_id fld \<and> f_order fld \<le> m then 1 else 0)"
  by (auto simp: reachedCountOf_def aggregateField_def Let_def map_of_mapSet
        getOrCreateFieldAggregate_def split: option.splits answerValue.splits)

lemma reachedCountOf_fold:
  "reachedCountOf (fold (aggregateField m answers) flds aggs) k =
     reachedCountOf aggs k
       + int (length (filter (\<lambda>fld. f_id fld = k \<and> f_order fld \<le> m) flds))"
  by (induction flds arbitrary: aggs) (auto simp: reachedCountOf_aggregateField)

lemma length_filter_distinct_id:
  assumes "distinct (map f_id flds)" and "fld \<in> set flds"
  shows "length (filter (\<lambda>g. f_id g = f_id fld \<and> P g) flds) = (if P fld then 1 else 0)"
  using assms
proof (induction flds)
  case Nil
  then show ?case by simp
next
  case (Cons a flds)
  show ?case
  proof (cases "a = fld")
    case True
    from Cons.prems True have "f_id fld \<notin> f_id ` set flds" by simp
    then have "\<And>g. g \<in> set flds \<Longrightarrow> f_id g \<noteq> f_id fld" by (metis imageI)
    then have "filter (\<lambda>g. f_id g = f_id fld \<and> P g) flds = []"
      by (simp add: filter_empty_conv)
    then show ?thesis using True by simp
  next
    case False
    with Cons.prems have "fld \<in> set flds" "f_id a \<noteq> f_id fld" by auto
    with Cons show ?thesis by simp
  qed
qed

text \<open>
  What the rebuild adds to the \<open>reachedCount\<close> of a field for one response, with the answers
  read as the code reads them.
\<close>

lemma reachedCount_of_response:
  assumes "versions (r_surveyVersionId response) = Some version"
    and "fld \<in> set (sv_fields version)"
    and "distinct (map f_id (sv_fields version))"
  shows "reachedCountOf (aggregateResponse versions response aggs) (f_id fld) =
           reachedCountOf aggs (f_id fld)
           + (if f_order fld \<le> 0
                 \<or> (\<exists>g\<in>set (sv_fields version).
                       isAnswerPresent (propertyOf (r_answers response) (f_id g))
                       \<and> f_order fld \<le> f_order g)
              then 1 else 0)"
proof -
  let ?flds = "sort_key f_order (sv_fields version)"
  have ne: "?flds \<noteq> []" using assms(2) by (metis empty_iff list.set(1) set_sort)
  have d: "distinct (map f_id ?flds)"
    using assms(3) by (metis distinct_map distinct_sort set_sort)
  have m: "fld \<in> set ?flds" using assms(2) by simp
  show ?thesis
    using ne assms(1)
    by (simp add: aggregateResponse_def Let_def reachedCountOf_fold
          length_filter_distinct_id [OF d m] maxReachedOrderLoop_le)
qed

lemma propertyOf_own:
  "key \<notin> set objectPrototypeKeys \<Longrightarrow> propertyOf answers key = answers key"
  by (simp add: propertyOf_def split: option.splits)

text \<open>
  Claim C2, as the code has it.  For every response and every field of the response's survey
  version (field ids distinct, as \<open>assertUniqueFieldIds\<close> keeps them, and none of them the name
  of a member of \<open>Object.prototype\<close>), the rebuild counts the field as reached if and only if
  its \<open>order\<close> is at most \<open>maxReachedOrder\<close>: some field at or \<^emph>\<open>after\<close> its order position has
  a present answer in the response, or its \<open>order\<close> is at most \<open>0\<close> (the value \<open>maxReachedOrder\<close>
  starts from).  The claim as written ("at or before") fails on the example data below.  For
  a field whose id names a member of \<open>Object.prototype\<close> the read \<open>response.answers[field.id]\<close>
  finds that member when no answer is stored, which the statement leaves out.
\<close>

theorem reached_iff_answered_at_or_after:
  assumes "versions (r_surveyVersionId response) = Some version"
    and "fld \<in> set (sv_fields version)"
    and "distinct (map f_id (sv_fields version))"
    and "set (map f_id (sv_fields version)) \<inter> set objectPrototypeKeys = {}"
  shows "reachedCountOf (aggregateResponse versions response aggs) (f_id fld) =
           reachedCountOf aggs (f_id fld)
           + (if f_order fld \<le> 0
                 \<or> (\<exists>g\<in>set (sv_fields version).
                       isAnswerPresent (r_answers response (f_id g)) \<and> f_order fld \<le> f_order g)
              then 1 else 0)"
proof -
  have "\<And>g. g \<in> set (sv_fields version) \<Longrightarrow>
          propertyOf (r_answers response) (f_id g) = r_answers response (f_id g)"
    using assms(4) by (intro propertyOf_own) auto
  then have "(\<exists>g\<in>set (sv_fields version).
                isAnswerPresent (propertyOf (r_answers response) (f_id g))
                \<and> f_order fld \<le> f_order g)
           = (\<exists>g\<in>set (sv_fields version).
                isAnswerPresent (r_answers response (f_id g)) \<and> f_order fld \<le> f_order g)"
    by auto
  with reachedCount_of_response [of versions response version fld aggs, OF assms(1-3)]
  show ?thesis by simp
qed

subsection \<open>Tables\<close>

text \<open>
  The store gives every document a fresh \<open>_id\<close>: the ids of a table are distinct and below the
  next id to be handed out.
\<close>

definition tableOk :: "'r table \<Rightarrow> nat \<Rightarrow> bool" where
  "tableOk tbl nextId = (distinct (map fst tbl) \<and> list_all (\<lambda>doc. fst doc < nextId) tbl)"

lemma filter_id_single:
  "distinct (map fst tbl) \<Longrightarrow> (i, r) \<in> set tbl \<Longrightarrow> filter (\<lambda>doc. fst doc = i) tbl = [(i, r)]"
proof (induction tbl)
  case Nil
  then show ?case by simp
next
  case (Cons a tbl)
  show ?case
  proof (cases "a = (i, r)")
    case True
    with Cons.prems have "i \<notin> fst ` set tbl" by auto
    then have "\<And>d. d \<in> set tbl \<Longrightarrow> fst d \<noteq> i" by (metis imageI)
    then have "filter (\<lambda>doc. fst doc = i) tbl = []" by (simp add: filter_empty_conv)
    with True show ?thesis by simp
  next
    case False
    with Cons.prems have m: "(i, r) \<in> set tbl" by auto
    with Cons.prems have "fst a \<noteq> i" by (metis distinct.simps(2) fst_conv imageI list.simps(9) set_map)
    with Cons m show ?thesis by simp
  qed
qed

lemma mset_tblDelete:
  assumes "distinct (map fst tbl)" and "(i, r) \<in> set tbl"
  shows "mset (tblDelete i tbl) = mset tbl - {#(i, r)#}"
proof -
  have "mset tbl = mset (filter (\<lambda>d. fst d = i) tbl) + mset (filter (\<lambda>d. fst d \<noteq> i) tbl)"
    by (induction tbl) auto
  then have "mset tbl = {#(i, r)#} + mset (tblDelete i tbl)"
    by (simp add: filter_id_single [OF assms] tblDelete_def)
  then show ?thesis by simp
qed

lemma tblDelete_other:
  assumes "distinct (map fst tbl)" and "(i, r) \<in> set tbl" and "\<not> P (i, r)"
  shows "filter P (tblDelete i tbl) = filter P tbl"
proof -
  have "\<And>d. d \<in> set tbl \<Longrightarrow> P d \<Longrightarrow> fst d \<noteq> i"
  proof
    fix d assume d: "d \<in> set tbl" "P d" "fst d = i"
    then have "d \<in> set (filter (\<lambda>doc. fst doc = i) tbl)" by simp
    then have "d = (i, r)" by (simp add: filter_id_single [OF assms(1,2)])
    with d assms(3) show False by simp
  qed
  then show ?thesis
    unfolding tblDelete_def by (induction tbl) auto
qed

lemma tblDelete_filter: "filter P (tblDelete i tbl) = tblDelete i (filter P tbl)"
  unfolding tblDelete_def by (induction tbl) auto

lemma tblDelete_ok: "tableOk tbl n \<Longrightarrow> tableOk (tblDelete i tbl) n"
  by (auto simp: tableOk_def tblDelete_def distinct_map_filter list_all_iff)

lemma map_fst_tblPatch: "map fst (tblPatch i r tbl) = map fst tbl"
  by (induction tbl) (auto simp: tblPatch_def)

lemma list_all_ids: "list_all (\<lambda>doc. fst doc < n) tbl = (\<forall>x\<in>set (map fst tbl). x < n)"
  by (auto simp: list_all_iff)

lemma tblPatch_ok: "tableOk tbl n \<Longrightarrow> tableOk (tblPatch i r tbl) n"
  by (simp add: tableOk_def list_all_ids map_fst_tblPatch)

lemma tblPatch_absent: "i \<notin> fst ` set tbl \<Longrightarrow> tblPatch i r tbl = tbl"
  unfolding tblPatch_def by (induction tbl) auto

lemma mset_tblPatch:
  "distinct (map fst tbl) \<Longrightarrow> (i, r) \<in> set tbl \<Longrightarrow>
     mset (tblPatch i r' tbl) = mset tbl - {#(i, r)#} + {#(i, r')#}"
proof (induction tbl)
  case Nil
  then show ?case by simp
next
  case (Cons a tbl)
  show ?case
  proof (cases "a = (i, r)")
    case True
    with Cons.prems have "i \<notin> fst ` set tbl" by auto
    then have "tblPatch i r' tbl = tbl" by (rule tblPatch_absent)
    with True show ?thesis by (simp add: tblPatch_def)
  next
    case False
    with Cons.prems have m: "(i, r) \<in> set tbl" by auto
    with Cons.prems have ne: "fst a \<noteq> i"
      by (metis distinct.simps(2) fst_conv imageI list.simps(9) set_map)
    from Cons m have "mset (tblPatch i r' tbl) = mset tbl - {#(i, r)#} + {#(i, r')#}" by simp
    moreover have "tblPatch i r' (a # tbl) = a # tblPatch i r' tbl"
      using ne by (simp add: tblPatch_def)
    ultimately show ?thesis using m False by simp
  qed
qed

lemma tblPatch_filter_in_aux:
  "(\<And>d. d \<in> set tbl \<Longrightarrow> fst d = i \<Longrightarrow> S (snd d)) \<Longrightarrow> S r' \<Longrightarrow>
     filter (\<lambda>d. S (snd d)) (tblPatch i r' tbl) = tblPatch i r' (filter (\<lambda>d. S (snd d)) tbl)"
  unfolding tblPatch_def by (induction tbl) auto

lemma tblPatch_filter_out_aux:
  "(\<And>d. d \<in> set tbl \<Longrightarrow> fst d = i \<Longrightarrow> S (snd d)) \<Longrightarrow> S r' \<Longrightarrow>
     filter (\<lambda>d. \<not> S (snd d)) (tblPatch i r' tbl) = filter (\<lambda>d. \<not> S (snd d)) tbl"
  unfolding tblPatch_def by (induction tbl) auto

lemma id_determines_doc:
  assumes "distinct (map fst tbl)" and "(i, r) \<in> set tbl" and "d \<in> set tbl" and "fst d = i"
  shows "d = (i, r)"
proof -
  from assms(3,4) have "d \<in> set (filter (\<lambda>doc. fst doc = i) tbl)" by simp
  then show ?thesis by (simp add: filter_id_single [OF assms(1,2)])
qed

lemma tblPatch_filter_in:
  assumes "distinct (map fst tbl)" and "(i, r) \<in> set tbl" and "S r" and "S r'"
  shows "filter (\<lambda>d. S (snd d)) (tblPatch i r' tbl) = tblPatch i r' (filter (\<lambda>d. S (snd d)) tbl)"
proof (rule tblPatch_filter_in_aux)
  fix d assume a: "d \<in> set tbl" "fst d = i"
  have "d = (i, r)" by (rule id_determines_doc [OF assms(1,2) a])
  then show "S (snd d)" using assms(3) by simp
qed (rule assms(4))

lemma tblPatch_filter_out:
  assumes "distinct (map fst tbl)" and "(i, r) \<in> set tbl" and "S r" and "S r'"
  shows "filter (\<lambda>d. \<not> S (snd d)) (tblPatch i r' tbl) = filter (\<lambda>d. \<not> S (snd d)) tbl"
proof (rule tblPatch_filter_out_aux)
  fix d assume a: "d \<in> set tbl" "fst d = i"
  have "d = (i, r)" by (rule id_determines_doc [OF assms(1,2) a])
  then show "S (snd d)" using assms(3) by simp
qed (rule assms(4))

subsection \<open>The sync procedure\<close>

lemma mapSet_new: "map_of m k = None \<Longrightarrow> mapSet k v m = m @ [(k, v)]"
  by (induction m) (auto split: if_splits)

lemma mapDelete_distinct: "distinct (map fst m) \<Longrightarrow> distinct (map fst (mapDelete k m))"
  by (simp add: mapDelete_def distinct_map_filter)

lemma mapDelete_mset:
  "distinct (map fst m) \<Longrightarrow> map_of m k = Some v \<Longrightarrow>
     mset (map snd (mapDelete k m)) = mset (map snd m) - {#v#}"
proof (induction m)
  case Nil
  then show ?case by simp
next
  case (Cons e m)
  show ?case
  proof (cases "fst e = k")
    case True
    with Cons.prems have v: "snd e = v" by (cases e) auto
    from Cons.prems True have "k \<notin> fst ` set m" by auto
    then have "\<And>x. x \<in> set m \<Longrightarrow> fst x \<noteq> k" by (metis imageI)
    then have "mapDelete k m = m" by (simp add: mapDelete_def filter_id_conv)
    with True v show ?thesis by (simp add: mapDelete_def)
  next
    case False
    with Cons.prems have mo: "map_of m k = Some v" by (cases e) auto
    then have "(k, v) \<in> set m" by (rule map_of_SomeD)
    then have "v \<in># mset (map snd m)" by force
    moreover from Cons mo have "mset (map snd (mapDelete k m)) = mset (map snd m) - {#v#}" by simp
    ultimately show ?thesis using False by (simp add: mapDelete_def)
  qed
qed

definition syncInv ::
  "('r \<Rightarrow> bool) \<Rightarrow> (string \<times> (nat \<times> 'r)) list \<Rightarrow> 'r table \<Rightarrow> nat \<Rightarrow> (nat \<times> 'r) multiset \<Rightarrow> bool" where
  "syncInv S m tbl nextId D =
     (tableOk tbl nextId \<and> distinct (map fst m)
      \<and> mset (filter (\<lambda>d. S (snd d)) tbl) = mset (map snd m) + D)"

lemma syncInv_member:
  assumes "syncInv S m tbl nextId D" and "map_of m k = Some doc"
  shows "doc \<in> set tbl" and "S (snd doc)"
proof -
  from assms(2) have "(k, doc) \<in> set m" by (rule map_of_SomeD)
  then have "doc \<in># mset (map snd m)" by force
  with assms(1) have "doc \<in># mset (filter (\<lambda>d. S (snd d)) tbl)" by (simp add: syncInv_def)
  then show "doc \<in> set tbl" and "S (snd doc)" by auto
qed

lemma dedupExisting_inv:
  assumes "tableOk tbl nextId" and "distinct (map fst m)"
    and "mset (filter (\<lambda>d. S (snd d)) tbl) = mset (map snd m) + mset E"
    and "dedupExisting key E m tbl = (m', tbl')"
  shows "syncInv S m' tbl' nextId {#}
         \<and> filter (\<lambda>d. \<not> S (snd d)) tbl' = filter (\<lambda>d. \<not> S (snd d)) tbl"
  using assms
proof (induction E arbitrary: m tbl)
  case Nil
  then show ?case by (simp add: syncInv_def)
next
  case (Cons doc rest)
  have din: "doc \<in># mset (filter (\<lambda>d. S (snd d)) tbl)" using Cons.prems(3) by simp
  then have dt: "doc \<in> set tbl" and ds: "S (snd doc)" by auto
  have dist: "distinct (map fst tbl)" using Cons.prems(1) by (simp add: tableOk_def)
  show ?case
  proof (cases "map_of m (key (snd doc)) = None")
    case True
    then have ms: "mapSet (key (snd doc)) doc m = m @ [(key (snd doc), doc)]" by (rule mapSet_new)
    have k: "key (snd doc) \<notin> fst ` set m" using True by (simp add: map_of_eq_None_iff)
    have 1: "distinct (map fst (mapSet (key (snd doc)) doc m))"
      using Cons.prems(2) k by (simp add: ms)
    have 2: "mset (filter (\<lambda>d. S (snd d)) tbl)
               = mset (map snd (mapSet (key (snd doc)) doc m)) + mset rest"
      using Cons.prems(3) by (simp add: ms)
    have 3: "dedupExisting key rest (mapSet (key (snd doc)) doc m) tbl = (m', tbl')"
      using Cons.prems(4) True by simp
    from Cons.IH [OF Cons.prems(1) 1 2 3] show ?thesis .
  next
    case False
    have docp: "(fst doc, snd doc) \<in> set tbl" using dt by simp
    have fdist: "distinct (map fst (filter (\<lambda>d. S (snd d)) tbl))"
      using dist by (simp add: distinct_map_filter)
    have fin: "(fst doc, snd doc) \<in> set (filter (\<lambda>d. S (snd d)) tbl)" using dt ds by simp
    have 1: "tableOk (tblDelete (fst doc) tbl) nextId" using Cons.prems(1) by (rule tblDelete_ok)
    have "mset (filter (\<lambda>d. S (snd d)) (tblDelete (fst doc) tbl))
            = mset (filter (\<lambda>d. S (snd d)) tbl) - {#doc#}"
      using mset_tblDelete [OF fdist fin] by (simp add: tblDelete_filter)
    then have 2: "mset (filter (\<lambda>d. S (snd d)) (tblDelete (fst doc) tbl))
                    = mset (map snd m) + mset rest"
      using Cons.prems(3) by simp
    have 3: "dedupExisting key rest m (tblDelete (fst doc) tbl) = (m', tbl')"
      using Cons.prems(4) False by simp
    have 4: "filter (\<lambda>d. \<not> S (snd d)) (tblDelete (fst doc) tbl) = filter (\<lambda>d. \<not> S (snd d)) tbl"
      using tblDelete_other [OF dist docp, of "\<lambda>d. \<not> S (snd d)"] ds by simp
    from Cons.IH [OF 1 Cons.prems(2) 2 3] 4 show ?thesis by simp
  qed
qed

lemma upsertRows_inv:
  assumes "syncInv S m tbl nextId D" and "list_all S rows"
    and "upsertRows key rows m (tbl, nextId) = (m', tbl', nextId')"
  shows "(\<exists>D'. syncInv S m' tbl' nextId' (D + D') \<and> image_mset snd D' = mset rows)
         \<and> filter (\<lambda>d. \<not> S (snd d)) tbl' = filter (\<lambda>d. \<not> S (snd d)) tbl
         \<and> nextId \<le> nextId'"
  using assms
proof (induction rows arbitrary: m tbl nextId D)
  case Nil
  then show ?case by auto
next
  case (Cons row rest)
  have Srow: "S row" and Srest: "list_all S rest" using Cons.prems(2) by auto
  have ok: "tableOk tbl nextId" and dm: "distinct (map fst m)"
    and eq: "mset (filter (\<lambda>d. S (snd d)) tbl) = mset (map snd m) + D"
    using Cons.prems(1) by (auto simp: syncInv_def)
  have dist: "distinct (map fst tbl)" using ok by (simp add: tableOk_def)
  show ?case
  proof (cases "map_of m (key row)")
    case None
    let ?tbl1 = "tbl @ [(nextId, row)]"
    have fresh: "nextId \<notin> fst ` set tbl"
      using ok by (force simp: tableOk_def list_all_iff)
    have ok1: "tableOk ?tbl1 (Suc nextId)"
      using ok fresh by (auto simp: tableOk_def list_all_iff less_Suc_eq)
    have inv1: "syncInv S m ?tbl1 (Suc nextId) (D + {#(nextId, row)#})"
      using ok1 dm eq Srow by (simp add: syncInv_def)
    have run: "upsertRows key rest m (?tbl1, Suc nextId) = (m', tbl', nextId')"
      using Cons.prems(3) None by simp
    from Cons.IH [OF inv1 Srest run]
    obtain D' where D': "syncInv S m' tbl' nextId' (D + {#(nextId, row)#} + D')"
      "image_mset snd D' = mset rest"
      and out: "filter (\<lambda>d. \<not> S (snd d)) tbl' = filter (\<lambda>d. \<not> S (snd d)) ?tbl1"
      and le: "Suc nextId \<le> nextId'"
      by auto
    have ex: "\<exists>D''. syncInv S m' tbl' nextId' (D + D'') \<and> image_mset snd D'' = mset (row # rest)"
    proof (intro exI conjI)
      show "syncInv S m' tbl' nextId' (D + ({#(nextId, row)#} + D'))"
        using D'(1) by (simp add: add.assoc)
      show "image_mset snd ({#(nextId, row)#} + D') = mset (row # rest)"
        using D'(2) by simp
    qed
    have "filter (\<lambda>d. \<not> S (snd d)) tbl' = filter (\<lambda>d. \<not> S (snd d)) tbl"
      using out Srow by simp
    moreover have "nextId \<le> nextId'" using le by simp
    ultimately show ?thesis using ex by blast
  next
    case (Some existingRow)
    obtain i r where er: "existingRow = (i, r)" by (cases existingRow)
    from syncInv_member [OF Cons.prems(1) Some] er
    have mem: "(i, r) \<in> set tbl" and Sr: "S r" by auto
    let ?tbl1 = "tblPatch i row tbl"
    let ?m1 = "mapDelete (key row) m"
    have ok1: "tableOk ?tbl1 nextId" using ok by (rule tblPatch_ok)
    have dm1: "distinct (map fst ?m1)" using dm by (rule mapDelete_distinct)
    have fdist: "distinct (map fst (filter (\<lambda>d. S (snd d)) tbl))"
      using dist by (simp add: distinct_map_filter)
    have fin: "(i, r) \<in> set (filter (\<lambda>d. S (snd d)) tbl)" using mem Sr by simp
    have inm: "(i, r) \<in># mset (map snd m)"
      using map_of_SomeD [OF Some] er by force
    have "mset (filter (\<lambda>d. S (snd d)) ?tbl1)
            = mset (filter (\<lambda>d. S (snd d)) tbl) - {#(i, r)#} + {#(i, row)#}"
      using mset_tblPatch [OF fdist fin] tblPatch_filter_in [OF dist mem Sr Srow] by simp
    also have "\<dots> = mset (map snd m) - {#(i, r)#} + D + {#(i, row)#}"
      using eq inm by simp
    also have "\<dots> = mset (map snd ?m1) + (D + {#(i, row)#})"
      using mapDelete_mset [OF dm Some] er by simp
    finally have inv1: "syncInv S ?m1 ?tbl1 nextId (D + {#(i, row)#})"
      using ok1 dm1 by (simp add: syncInv_def)
    have run: "upsertRows key rest ?m1 (?tbl1, nextId) = (m', tbl', nextId')"
      using Cons.prems(3) Some er by simp
    from Cons.IH [OF inv1 Srest run]
    obtain D' where D': "syncInv S m' tbl' nextId' (D + {#(i, row)#} + D')"
      "image_mset snd D' = mset rest"
      and out: "filter (\<lambda>d. \<not> S (snd d)) tbl' = filter (\<lambda>d. \<not> S (snd d)) ?tbl1"
      and le: "nextId \<le> nextId'"
      by auto
    have ex: "\<exists>D''. syncInv S m' tbl' nextId' (D + D'') \<and> image_mset snd D'' = mset (row # rest)"
    proof (intro exI conjI)
      show "syncInv S m' tbl' nextId' (D + ({#(i, row)#} + D'))"
        using D'(1) by (simp add: add.assoc)
      show "image_mset snd ({#(i, row)#} + D') = mset (row # rest)"
        using D'(2) by simp
    qed
    have "filter (\<lambda>d. \<not> S (snd d)) ?tbl1 = filter (\<lambda>d. \<not> S (snd d)) tbl"
      by (rule tblPatch_filter_out [OF dist mem Sr Srow])
    then have "filter (\<lambda>d. \<not> S (snd d)) tbl' = filter (\<lambda>d. \<not> S (snd d)) tbl"
      using out by simp
    then show ?thesis using ex le by blast
  qed
qed

lemma deleteStale_inv:
  assumes "syncInv S m tbl nextId D"
  shows "tableOk (deleteStale m tbl) nextId
         \<and> mset (filter (\<lambda>d. S (snd d)) (deleteStale m tbl)) = D
         \<and> filter (\<lambda>d. \<not> S (snd d)) (deleteStale m tbl) = filter (\<lambda>d. \<not> S (snd d)) tbl"
  using assms
proof (induction m arbitrary: tbl)
  case Nil
  then show ?case by (simp add: deleteStale_def syncInv_def)
next
  case (Cons e m)
  obtain k i r where e: "e = (k, (i, r))" by (cases e) auto
  have ok: "tableOk tbl nextId" and dm: "distinct (map fst (e # m))"
    and eq: "mset (filter (\<lambda>d. S (snd d)) tbl) = mset (map snd (e # m)) + D"
    using Cons.prems by (auto simp: syncInv_def)
  have dist: "distinct (map fst tbl)" using ok by (simp add: tableOk_def)
  have "(i, r) \<in># mset (filter (\<lambda>d. S (snd d)) tbl)" using eq e by simp
  then have mem: "(i, r) \<in> set tbl" and Sr: "S r" by auto
  have fdist: "distinct (map fst (filter (\<lambda>d. S (snd d)) tbl))"
    using dist by (simp add: distinct_map_filter)
  have fin: "(i, r) \<in> set (filter (\<lambda>d. S (snd d)) tbl)" using mem Sr by simp
  have "mset (filter (\<lambda>d. S (snd d)) (tblDelete i tbl))
          = mset (filter (\<lambda>d. S (snd d)) tbl) - {#(i, r)#}"
    using mset_tblDelete [OF fdist fin] by (simp add: tblDelete_filter)
  then have "mset (filter (\<lambda>d. S (snd d)) (tblDelete i tbl)) = mset (map snd m) + D"
    using eq e by simp
  then have inv1: "syncInv S m (tblDelete i tbl) nextId D"
    using tblDelete_ok [OF ok] dm by (simp add: syncInv_def)
  have out: "filter (\<lambda>d. \<not> S (snd d)) (tblDelete i tbl) = filter (\<lambda>d. \<not> S (snd d)) tbl"
    using tblDelete_other [OF dist mem, of "\<lambda>d. \<not> S (snd d)"] Sr by simp
  have "deleteStale (e # m) tbl = deleteStale m (tblDelete i tbl)"
    by (simp add: deleteStale_def e)
  with Cons.IH [OF inv1] out show ?case by simp
qed

lemma tableOk_mono: "tableOk tbl n \<Longrightarrow> n \<le> n' \<Longrightarrow> tableOk tbl n'"
  by (auto simp: tableOk_def list_all_iff)

lemma syncRows_content:
  assumes "tableOk tbl nextId" and "list_all S rows"
    and "syncRows key S rows (tbl, nextId) = (tbl', nextId')"
  shows "tableOk tbl' nextId'"
    and "mset (map snd (filter (\<lambda>d. S (snd d)) tbl')) = mset rows"
    and "filter (\<lambda>d. \<not> S (snd d)) tbl' = filter (\<lambda>d. \<not> S (snd d)) tbl"
    and "nextId \<le> nextId'"
proof -
  obtain m1 tbl1 where d: "dedupExisting key (filter (\<lambda>d. S (snd d)) tbl) [] tbl = (m1, tbl1)"
    by (cases "dedupExisting key (filter (\<lambda>d. S (snd d)) tbl) [] tbl") auto
  obtain m2 tbl2 n2 where u: "upsertRows key rows m1 (tbl1, nextId) = (m2, tbl2, n2)"
    by (cases "upsertRows key rows m1 (tbl1, nextId)") auto
  from assms(3) d u have res: "tbl' = deleteStale m2 tbl2" "nextId' = n2"
    by (auto simp: syncRows_def)
  have "syncInv S m1 tbl1 nextId {#}
        \<and> filter (\<lambda>d. \<not> S (snd d)) tbl1 = filter (\<lambda>d. \<not> S (snd d)) tbl"
    by (rule dedupExisting_inv [OF assms(1) _ _ d]) auto
  then have i1: "syncInv S m1 tbl1 nextId {#}"
    and o1: "filter (\<lambda>d. \<not> S (snd d)) tbl1 = filter (\<lambda>d. \<not> S (snd d)) tbl" by auto
  from upsertRows_inv [OF i1 assms(2) u]
  obtain D' where i2: "syncInv S m2 tbl2 n2 D'" and im: "image_mset snd D' = mset rows"
    and o2: "filter (\<lambda>d. \<not> S (snd d)) tbl2 = filter (\<lambda>d. \<not> S (snd d)) tbl1"
    and le: "nextId \<le> n2"
    by auto
  from deleteStale_inv [OF i2]
  have ok: "tableOk (deleteStale m2 tbl2) n2"
    and c: "mset (filter (\<lambda>d. S (snd d)) (deleteStale m2 tbl2)) = D'"
    and o3: "filter (\<lambda>d. \<not> S (snd d)) (deleteStale m2 tbl2) = filter (\<lambda>d. \<not> S (snd d)) tbl2"
    by auto
  show "tableOk tbl' nextId'" using ok res by simp
  show "nextId \<le> nextId'" using le res by simp
  show "filter (\<lambda>d. \<not> S (snd d)) tbl' = filter (\<lambda>d. \<not> S (snd d)) tbl"
    using o1 o2 o3 res by simp
  have "mset (map snd (filter (\<lambda>d. S (snd d)) tbl')) = image_mset snd D'"
    using c res by (metis mset_map)
  then show "mset (map snd (filter (\<lambda>d. S (snd d)) tbl')) = mset rows" using im by simp
qed

subsection \<open>The rows of a day, and the upsert of the summary row\<close>

lemma foldDelete_inv:
  assumes "tableOk tbl nextId"
    and "mset (filter (\<lambda>d. S (snd d)) tbl) = mset E + D"
  shows "tableOk (fold (\<lambda>doc t. tblDelete (fst doc) t) E tbl) nextId
         \<and> mset (filter (\<lambda>d. S (snd d)) (fold (\<lambda>doc t. tblDelete (fst doc) t) E tbl)) = D
         \<and> filter (\<lambda>d. \<not> S (snd d)) (fold (\<lambda>doc t. tblDelete (fst doc) t) E tbl)
             = filter (\<lambda>d. \<not> S (snd d)) tbl"
  using assms
proof (induction E arbitrary: tbl)
  case Nil
  then show ?case by simp
next
  case (Cons e E)
  obtain i r where e: "e = (i, r)" by (cases e) auto
  have ok: "tableOk tbl nextId" by (rule Cons.prems(1))
  have eq: "mset (filter (\<lambda>d. S (snd d)) tbl) = mset (e # E) + D" by (rule Cons.prems(2))
  have dist: "distinct (map fst tbl)" using ok by (simp add: tableOk_def)
  have "(i, r) \<in># mset (filter (\<lambda>d. S (snd d)) tbl)" using eq e by simp
  then have mem: "(i, r) \<in> set tbl" and Sr: "S r" by auto
  have fdist: "distinct (map fst (filter (\<lambda>d. S (snd d)) tbl))"
    using dist by (simp add: distinct_map_filter)
  have fin: "(i, r) \<in> set (filter (\<lambda>d. S (snd d)) tbl)" using mem Sr by simp
  have "mset (filter (\<lambda>d. S (snd d)) (tblDelete i tbl))
          = mset (filter (\<lambda>d. S (snd d)) tbl) - {#(i, r)#}"
    using mset_tblDelete [OF fdist fin] by (simp add: tblDelete_filter)
  then have eq1: "mset (filter (\<lambda>d. S (snd d)) (tblDelete i tbl)) = mset E + D"
    using eq e by simp
  have out: "filter (\<lambda>d. \<not> S (snd d)) (tblDelete i tbl) = filter (\<lambda>d. \<not> S (snd d)) tbl"
    using tblDelete_other [OF dist mem, of "\<lambda>d. \<not> S (snd d)"] Sr by simp
  from Cons.IH [OF tblDelete_ok [OF ok] eq1] out e show ?case by simp
qed

definition analyticsRowsFor :: "database \<Rightarrow> nat \<Rightarrow> dateKey \<Rightarrow> analyticsRow list" where
  "analyticsRowsFor db surveyId day =
     map snd (filter (\<lambda>doc. an_surveyId (snd doc) = surveyId \<and> an_dateKey (snd doc) = day)
                (db_analyticsDaily db))"

definition fieldRowsFor :: "database \<Rightarrow> nat \<Rightarrow> dateKey \<Rightarrow> fieldRow list" where
  "fieldRowsFor db surveyId day =
     map snd (filter (\<lambda>doc. fr_surveyId (snd doc) = surveyId \<and> fr_dateKey (snd doc) = day)
                (db_fieldDaily db))"

definition bucketRowsFor :: "database \<Rightarrow> nat \<Rightarrow> dateKey \<Rightarrow> bucketRow list" where
  "bucketRowsFor db surveyId day =
     map snd (filter (\<lambda>doc. b_surveyId (snd doc) = surveyId \<and> b_dateKey (snd doc) = day)
                (db_bucketsDaily db))"

definition databaseOk :: "database \<Rightarrow> bool" where
  "databaseOk db =
     (tableOk (db_analyticsDaily db) (db_nextId db) \<and> tableOk (db_fieldDaily db) (db_nextId db)
      \<and> tableOk (db_bucketsDaily db) (db_nextId db) \<and> tableOk (db_textDaily db) (db_nextId db))"

lemma upsert_table:
  assumes ok: "tableOk (db_analyticsDaily db) (db_nextId db)"
  shows "tableOk (db_analyticsDaily (upsertSurveyAnalyticsDailyRow db row))
           (db_nextId (upsertSurveyAnalyticsDailyRow db row))
    \<and> analyticsRowsFor (upsertSurveyAnalyticsDailyRow db row) (an_surveyId row) (an_dateKey row)
        = [row]
    \<and> db_nextId db \<le> db_nextId (upsertSurveyAnalyticsDailyRow db row)"
proof -
  define S where "S = (\<lambda>d :: nat \<times> analyticsRow.
    an_surveyId (snd d) = an_surveyId row \<and> an_dateKey (snd d) = an_dateKey row)"
  define T where "T = db_analyticsDaily db"
  define n where "n = db_nextId db"
  have okT: "tableOk T n" using ok by (simp add: T_def n_def)
  have dist: "distinct (map fst T)" using okT by (simp add: tableOk_def)
  have Srow: "\<And>i. S (i, row)" by (simp add: S_def)
  have rows: "\<And>db'. analyticsRowsFor db' (an_surveyId row) (an_dateKey row)
                 = map snd (filter S (db_analyticsDaily db'))"
    by (simp add: analyticsRowsFor_def S_def)
  show ?thesis
  proof (cases "filter S T")
    case Nil
    have res: "upsertSurveyAnalyticsDailyRow db row
                 = db\<lparr> db_analyticsDaily := T @ [(n, row)], db_nextId := Suc n \<rparr>"
      using Nil unfolding upsertSurveyAnalyticsDailyRow_def S_def T_def n_def by simp
    have fresh: "n \<notin> fst ` set T"
      using okT by (force simp: tableOk_def list_all_iff)
    have "tableOk (T @ [(n, row)]) (Suc n)"
      using okT fresh by (auto simp: tableOk_def list_all_iff less_Suc_eq)
    moreover have "map snd (filter S (T @ [(n, row)])) = [row]"
      using Nil Srow by simp
    ultimately show ?thesis
      unfolding rows res by (simp add: n_def)
  next
    case (Cons first duplicates)
    obtain i r where f: "first = (i, r)" by (cases first) auto
    have res: "upsertSurveyAnalyticsDailyRow db row
                 = db\<lparr> db_analyticsDaily :=
                        fold (\<lambda>doc t. tblDelete (fst doc) t) duplicates (tblPatch i row T) \<rparr>"
      using Cons f unfolding upsertSurveyAnalyticsDailyRow_def S_def T_def n_def by simp
    have "first \<in> set (filter S T)" using Cons by simp
    then have mem: "(i, r) \<in> set T" and Sr: "S (i, r)" using f by auto
    have fdist: "distinct (map fst (filter S T))"
      using dist by (simp add: distinct_map_filter)
    have fin: "(i, r) \<in> set (filter S T)" using mem Sr by simp
    have pf: "filter S (tblPatch i row T) = tblPatch i row (filter S T)"
      using tblPatch_filter_in [OF dist mem, of "\<lambda>x. S (i, x)" row] Sr Srow
      by (simp add: S_def)
    have "mset (filter S (tblPatch i row T)) = mset (filter S T) - {#(i, r)#} + {#(i, row)#}"
      unfolding pf by (rule mset_tblPatch [OF fdist fin])
    then have eq: "mset (filter (\<lambda>d. S (fst d, snd d)) (tblPatch i row T))
                     = mset duplicates + {#(i, row)#}"
      using Cons f by simp
    have okP: "tableOk (tblPatch i row T) n" using okT by (rule tblPatch_ok)
    from foldDelete_inv [of "tblPatch i row T" n "\<lambda>x. S (i, x)" duplicates "{#(i, row)#}"]
    have ok': "tableOk (fold (\<lambda>doc t. tblDelete (fst doc) t) duplicates (tblPatch i row T)) n"
      and c: "mset (filter S (fold (\<lambda>doc t. tblDelete (fst doc) t) duplicates (tblPatch i row T)))
                = {#(i, row)#}"
      using okP eq by (simp_all add: S_def)
    from c have "filter S (fold (\<lambda>doc t. tblDelete (fst doc) t) duplicates (tblPatch i row T))
                   = [(i, row)]"
      by (simp only: mset_single_iff)
    then show ?thesis
      unfolding rows res using ok' by (simp add: n_def)
  qed
qed

lemma upsert_others:
  "db_fieldDaily (upsertSurveyAnalyticsDailyRow db row) = db_fieldDaily db
   \<and> db_bucketsDaily (upsertSurveyAnalyticsDailyRow db row) = db_bucketsDaily db
   \<and> db_textDaily (upsertSurveyAnalyticsDailyRow db row) = db_textDaily db
   \<and> db_responses (upsertSurveyAnalyticsDailyRow db row) = db_responses db
   \<and> db_versions (upsertSurveyAnalyticsDailyRow db row) = db_versions db
   \<and> db_metricsDaily (upsertSurveyAnalyticsDailyRow db row) = db_metricsDaily db
   \<and> db_surveys (upsertSurveyAnalyticsDailyRow db row) = db_surveys db"
  by (simp add: upsertSurveyAnalyticsDailyRow_def split: list.splits)

lemma upsert_ok:
  assumes "databaseOk db"
  shows "databaseOk (upsertSurveyAnalyticsDailyRow db row)"
proof -
  let ?db' = "upsertSurveyAnalyticsDailyRow db row"
  from assms have a: "tableOk (db_analyticsDaily db) (db_nextId db)"
    and f: "tableOk (db_fieldDaily db) (db_nextId db)"
    and b: "tableOk (db_bucketsDaily db) (db_nextId db)"
    and t: "tableOk (db_textDaily db) (db_nextId db)"
    by (simp_all add: databaseOk_def)
  from upsert_table [OF a, of row]
  have a': "tableOk (db_analyticsDaily ?db') (db_nextId ?db')"
    and le: "db_nextId db \<le> db_nextId ?db'" by simp_all
  have o: "db_fieldDaily ?db' = db_fieldDaily db" "db_bucketsDaily ?db' = db_bucketsDaily db"
    "db_textDaily ?db' = db_textDaily db"
    using upsert_others [of db row] by simp_all
  show ?thesis
    unfolding databaseOk_def o
    using a' tableOk_mono [OF f le] tableOk_mono [OF b le] tableOk_mono [OF t le] by simp
qed

subsection \<open>Keys of the computed rows\<close>

lemma mapSet_keys: "fst ` set (mapSet k v m) = insert k (fst ` set m)"
  by (induction m) auto

lemma mapSet_distinct: "distinct (map fst m) \<Longrightarrow> distinct (map fst (mapSet k v m))"
proof (induction m)
  case Nil
  then show ?case by simp
next
  case (Cons e m)
  have "fst e \<noteq> k \<Longrightarrow> fst e \<notin> fst ` set (mapSet k v m)"
    using Cons.prems by (simp add: mapSet_keys)
  with Cons show ?case by auto
qed

lemma mapSet_values: "set (mapSet k v m) \<subseteq> insert (k, v) (set m)"
  by (induction m) auto

lemma bumpBucket_distinct: "distinct (map fst bm) \<Longrightarrow> distinct (map fst (bumpBucket e bm))"
  by (simp add: bumpBucket_def mapSet_distinct split: option.splits)

lemma fold_bumpBucket_distinct:
  "distinct (map fst bm) \<Longrightarrow> distinct (map fst (fold bumpBucket es bm))"
  by (induction es arbitrary: bm) (simp_all add: bumpBucket_distinct)

definition aggregateOk :: "string \<times> fieldAggregate \<Rightarrow> bool" where
  "aggregateOk e = (a_fieldId (snd e) = fst e \<and> distinct (map fst (a_bucketMap (snd e))))"

definition aggregatesOk :: "aggregates \<Rightarrow> bool" where
  "aggregatesOk aggs = (distinct (map fst aggs) \<and> list_all aggregateOk aggs)"

lemma getOrCreate_ok:
  assumes "aggregatesOk aggs"
  shows "aggregateOk (f_id fld, getOrCreateFieldAggregate aggs fld)"
proof (cases "map_of aggs (f_id fld)")
  case None
  then show ?thesis by (simp add: getOrCreateFieldAggregate_def aggregateOk_def)
next
  case (Some a)
  then have "(f_id fld, a) \<in> set aggs" by (rule map_of_SomeD)
  with assms have "aggregateOk (f_id fld, a)" by (auto simp: aggregatesOk_def list_all_iff)
  with Some show ?thesis by (simp add: getOrCreateFieldAggregate_def)
qed

lemma mapSet_aggregatesOk:
  assumes "aggregatesOk aggs" and "aggregateOk (k, a)"
  shows "aggregatesOk (mapSet k a aggs)"
proof -
  have "list_all aggregateOk (mapSet k a aggs)"
    using assms mapSet_values [of k a aggs] by (auto simp: aggregatesOk_def list_all_iff)
  then show ?thesis using assms(1) by (simp add: aggregatesOk_def mapSet_distinct)
qed

lemma aggregateField_ok:
  assumes "aggregatesOk aggs"
  shows "aggregatesOk (aggregateField m answers fld aggs)"
proof -
  have g: "aggregateOk (f_id fld, getOrCreateFieldAggregate aggs fld)"
    by (rule getOrCreate_ok [OF assms])
  have "\<exists>a. aggregateField m answers fld aggs = mapSet (f_id fld) a aggs
             \<and> aggregateOk (f_id fld, a)"
    using g
    by (auto simp: aggregateField_def Let_def aggregateOk_def fold_bumpBucket_distinct
          split: option.splits answerValue.splits)
  then show ?thesis using mapSet_aggregatesOk [OF assms] by auto
qed

lemma fold_aggregateField_ok:
  "aggregatesOk aggs \<Longrightarrow> aggregatesOk (fold (aggregateField m answers) flds aggs)"
  by (induction flds arbitrary: aggs) (simp_all add: aggregateField_ok)

lemma aggregateResponse_ok:
  "aggregatesOk aggs \<Longrightarrow> aggregatesOk (aggregateResponse versions response aggs)"
  by (simp add: aggregateResponse_def Let_def fold_aggregateField_ok split: option.splits)

lemma aggregateResponses_ok:
  "aggregatesOk aggs \<Longrightarrow>
     aggregateResponses versions responses (g, s, aggs) = (g', s', aggs') \<Longrightarrow> aggregatesOk aggs'"
proof (induction responses arbitrary: g s aggs)
  case Nil
  then show ?case by simp
next
  case (Cons r rs)
  from Cons.prems(2) have
    "aggregateResponses versions rs
       ((if isGraded r then g + 1 else g), (if isGraded r then s + gradedScore r else s),
        aggregateResponse versions r aggs) = (g', s', aggs')"
    by simp
  from Cons.IH [OF aggregateResponse_ok [OF Cons.prems(1)] this] show ?case .
qed

lemma fieldRowsOf_distinct:
  assumes "aggregatesOk aggs"
  shows "distinct (map fr_fieldId (fieldRowsOf surveyId day now aggs))"
proof -
  have "map (a_fieldId \<circ> snd) aggs = map fst aggs"
    using assms by (auto simp: aggregatesOk_def aggregateOk_def list_all_iff)
  then have d: "distinct (map a_fieldId (map snd aggs))"
    unfolding map_map using assms by (simp only: aggregatesOk_def)
  have "map fr_fieldId (fieldRowsOf surveyId day now aggs)
          = map a_fieldId (sort_key a_order (map snd aggs))"
    by (simp add: fieldRowsOf_def fieldRowOf_def comp_def)
  moreover have "mset (map a_fieldId (sort_key a_order (map snd aggs)))
                   = mset (map a_fieldId (map snd aggs))"
    by (simp only: mset_map mset_sort)
  ultimately show ?thesis using d by (metis mset_eq_imp_distinct_iff)
qed

definition bucketRowsOk :: "string \<Rightarrow> bucketRow list \<Rightarrow> bool" where
  "bucketRowsOk fieldId rows =
     (list_all (\<lambda>row. b_fieldId row = fieldId) rows \<and> distinct (map b_bucketKey rows))"

lemma padBucket_ok:
  assumes "bucketRowsOk fieldId rows"
  shows "bucketRowsOk fieldId (padBucket surveyId day now fieldId labels v rows)"
proof -
  have "list_ex (\<lambda>row. compositeKey row = fieldId @ ''::'' @ v) rows = (v \<in> set (map b_bucketKey rows))"
    using assms by (auto simp: bucketRowsOk_def list_all_iff list_ex_iff compositeKey_def)
  then show ?thesis
    using assms by (auto simp: padBucket_def bucketRowsOk_def)
qed

lemma fold_padBucket_ok:
  "bucketRowsOk fieldId rows \<Longrightarrow>
     bucketRowsOk fieldId (fold (padBucket surveyId day now fieldId labels) vs rows)"
  by (induction vs arbitrary: rows) (simp_all add: padBucket_ok)

lemma bucketRowsOfAggregate_ok:
  assumes "distinct (map fst (a_bucketMap a))"
  shows "bucketRowsOk (a_fieldId a) (bucketRowsOfAggregate surveyId day now a)"
proof -
  have "bucketRowsOk (a_fieldId a) (map (bucketRowOf surveyId day now (a_fieldId a)) (a_bucketMap a))"
    using assms by (simp add: bucketRowsOk_def list_all_iff bucketRowOf_def comp_def)
  then have "bucketRowsOk (a_fieldId a)
      (if a_kind a = single_select \<or> a_kind a = multi_select
       then fold (padBucket surveyId day now (a_fieldId a) (a_optionLabels a)) (a_optionOrder a)
              (map (bucketRowOf surveyId day now (a_fieldId a)) (a_bucketMap a))
       else map (bucketRowOf surveyId day now (a_fieldId a)) (a_bucketMap a))"
    using fold_padBucket_ok by (simp only: if_split) blast
  then have "bucketRowsOk (a_fieldId a)
      (if a_kind a = rating_1_5
       then fold (padBucket surveyId day now (a_fieldId a) []) [''1'', ''2'', ''3'', ''4'', ''5'']
              (if a_kind a = single_select \<or> a_kind a = multi_select
               then fold (padBucket surveyId day now (a_fieldId a) (a_optionLabels a))
                      (a_optionOrder a)
                      (map (bucketRowOf surveyId day now (a_fieldId a)) (a_bucketMap a))
               else map (bucketRowOf surveyId day now (a_fieldId a)) (a_bucketMap a))
       else (if a_kind a = single_select \<or> a_kind a = multi_select
               then fold (padBucket surveyId day now (a_fieldId a) (a_optionLabels a))
                      (a_optionOrder a)
                      (map (bucketRowOf surveyId day now (a_fieldId a)) (a_bucketMap a))
               else map (bucketRowOf surveyId day now (a_fieldId a)) (a_bucketMap a)))"
    using fold_padBucket_ok by (simp only: if_split) blast
  then show ?thesis
    unfolding bucketRowsOfAggregate_def Let_def .
qed

lemma bucketRowsOf_distinct:
  assumes "aggregatesOk aggs"
  shows "distinct (map (\<lambda>row. (b_fieldId row, b_bucketKey row)) (bucketRowsOf surveyId day now aggs))
         \<and> b_fieldId ` set (bucketRowsOf surveyId day now aggs) \<subseteq> set (map fst aggs)"
  using assms
proof (induction aggs)
  case Nil
  then show ?case by (simp add: bucketRowsOf_def)
next
  case (Cons e aggs)
  from Cons.prems have rest: "aggregatesOk aggs" and e: "aggregateOk e" and k: "fst e \<notin> set (map fst aggs)"
    by (auto simp: aggregatesOk_def)
  have hd: "bucketRowsOk (fst e) (bucketRowsOfAggregate surveyId day now (snd e))"
    using bucketRowsOfAggregate_ok [of "snd e"] e by (simp add: aggregateOk_def)
  have split: "bucketRowsOf surveyId day now (e # aggs)
                 = bucketRowsOfAggregate surveyId day now (snd e) @ bucketRowsOf surveyId day now aggs"
    by (simp add: bucketRowsOf_def)
  have hdf: "\<And>row. row \<in> set (bucketRowsOfAggregate surveyId day now (snd e)) \<Longrightarrow> b_fieldId row = fst e"
    using hd by (simp add: bucketRowsOk_def list_all_iff)
  have hdd: "distinct (map (\<lambda>row. (b_fieldId row, b_bucketKey row))
                         (bucketRowsOfAggregate surveyId day now (snd e)))"
  proof -
    have "distinct (map b_bucketKey (bucketRowsOfAggregate surveyId day now (snd e)))"
      using hd by (simp add: bucketRowsOk_def)
    then show ?thesis
      by (simp add: distinct_map inj_on_def)
  qed
  from Cons.IH [OF rest]
  have rd: "distinct (map (\<lambda>row. (b_fieldId row, b_bucketKey row)) (bucketRowsOf surveyId day now aggs))"
    and rf: "b_fieldId ` set (bucketRowsOf surveyId day now aggs) \<subseteq> set (map fst aggs)"
    by auto
  have disj: "\<And>x y. x \<in> set (bucketRowsOfAggregate surveyId day now (snd e)) \<Longrightarrow>
                 y \<in> set (bucketRowsOf surveyId day now aggs) \<Longrightarrow> b_fieldId x \<noteq> b_fieldId y"
    using hdf rf k by (metis image_eqI subsetD)
  have "distinct (map (\<lambda>row. (b_fieldId row, b_bucketKey row)) (bucketRowsOf surveyId day now (e # aggs)))"
    unfolding split using hdd rd disj by auto
  moreover have "b_fieldId ` set (bucketRowsOf surveyId day now (e # aggs)) \<subseteq> set (map fst (e # aggs))"
    unfolding split using hdf rf by auto
  ultimately show ?case by simp
qed

subsection \<open>The rebuild as a whole\<close>

text \<open>
  \<open>roundToTwo\<close> and \<open>toPercent\<close> are the helpers of analytics.ts that derive a conversion rate
  from a summary row.  The \<open>fresh\<close> rows of a day are the ones the rebuild computes from the
  stored responses, versions and live counters.
\<close>

definition roundToTwo :: "rat \<Rightarrow> rat" where
  "roundToTwo v = of_int (js_round (v * 100)) / 100"

definition toPercent :: "rat \<Rightarrow> rat \<Rightarrow> rat" where
  "toPercent v tot = (if tot \<le> 0 then 0 else roundToTwo ((v / tot) * 100))"

definition freshAggregates :: "database \<Rightarrow> nat \<Rightarrow> dateKey \<Rightarrow> int \<times> rat \<times> aggregates" where
  "freshAggregates db surveyId day =
     aggregateResponses (map_of (db_versions db)) (getResponsesForSurveyDate db surveyId day) (0, 0, [])"

definition freshFieldRows :: "database \<Rightarrow> nat \<Rightarrow> dateKey \<Rightarrow> int \<Rightarrow> fieldRow list" where
  "freshFieldRows db surveyId day now =
     fieldRowsOf surveyId day now (snd (snd (freshAggregates db surveyId day)))"

definition freshBucketRows :: "database \<Rightarrow> nat \<Rightarrow> dateKey \<Rightarrow> int \<Rightarrow> bucketRow list" where
  "freshBucketRows db surveyId day now =
     bucketRowsOf surveyId day now (snd (snd (freshAggregates db surveyId day)))"

lemma day_bounds: "(startOfDay d \<le> t \<and> t \<le> endOfDay d) = (dateKeyFromTimestamp t = d)"
proof -
  have eq: "t = 86400000 * (t div 86400000) + t mod 86400000" by simp
  have r: "0 \<le> t mod 86400000" "t mod 86400000 < 86400000" by simp_all
  show ?thesis
  proof
    assume b: "startOfDay d \<le> t \<and> t \<le> endOfDay d"
    have "t div 86400000 = d"
    proof (rule int_div_pos_eq)
      show "t = 86400000 * d + (t - 86400000 * d)" by simp
      show "0 \<le> t - 86400000 * d" using b by (simp add: startOfDay_def msPerDay_def)
      show "t - 86400000 * d < 86400000" using b by (simp add: endOfDay_def msPerDay_def)
    qed
    then show "dateKeyFromTimestamp t = d" by (simp add: dateKeyFromTimestamp_def msPerDay_def)
  next
    assume "dateKeyFromTimestamp t = d"
    then have d: "d = t div 86400000" by (simp add: dateKeyFromTimestamp_def msPerDay_def)
    show "startOfDay d \<le> t \<and> t \<le> endOfDay d"
      unfolding startOfDay_def endOfDay_def msPerDay_def d using eq r by linarith
  qed
qed

lemma syncDailyFieldRows_spec:
  assumes ok: "databaseOk db"
    and sc: "list_all (\<lambda>r. fr_surveyId r = sid \<and> fr_dateKey r = dk) rows"
  shows "databaseOk (syncDailyFieldRows db sid dk rows)
    \<and> mset (fieldRowsFor (syncDailyFieldRows db sid dk rows) sid dk) = mset rows
    \<and> db_analyticsDaily (syncDailyFieldRows db sid dk rows) = db_analyticsDaily db
    \<and> db_bucketsDaily (syncDailyFieldRows db sid dk rows) = db_bucketsDaily db
    \<and> db_textDaily (syncDailyFieldRows db sid dk rows) = db_textDaily db
    \<and> db_responses (syncDailyFieldRows db sid dk rows) = db_responses db
    \<and> db_versions (syncDailyFieldRows db sid dk rows) = db_versions db
    \<and> db_metricsDaily (syncDailyFieldRows db sid dk rows) = db_metricsDaily db
    \<and> db_surveys (syncDailyFieldRows db sid dk rows) = db_surveys db"
proof -
  define S where "S = (\<lambda>r :: fieldRow. fr_surveyId r = sid \<and> fr_dateKey r = dk)"
  obtain tbl' n' where run: "syncRows fr_fieldId S rows (db_fieldDaily db, db_nextId db) = (tbl', n')"
    by (cases "syncRows fr_fieldId S rows (db_fieldDaily db, db_nextId db)") auto
  have res: "syncDailyFieldRows db sid dk rows = db\<lparr> db_fieldDaily := tbl', db_nextId := n' \<rparr>"
    using run by (simp add: syncDailyFieldRows_def S_def)
  from ok have t: "tableOk (db_fieldDaily db) (db_nextId db)" by (simp add: databaseOk_def)
  have sc': "list_all S rows" using sc by (simp add: S_def)
  note c = syncRows_content [OF t sc' run]
  have "databaseOk (db\<lparr> db_fieldDaily := tbl', db_nextId := n' \<rparr>)"
    using ok c(1) c(4) by (auto simp: databaseOk_def intro: tableOk_mono)
  moreover have "mset (fieldRowsFor (db\<lparr> db_fieldDaily := tbl', db_nextId := n' \<rparr>) sid dk) = mset rows"
    using c(2) by (simp add: fieldRowsFor_def S_def)
  ultimately show ?thesis unfolding res by simp
qed

lemma syncDailyBucketRows_spec:
  assumes ok: "databaseOk db"
    and sc: "list_all (\<lambda>r. b_surveyId r = sid \<and> b_dateKey r = dk) rows"
  shows "databaseOk (syncDailyBucketRows db sid dk rows)
    \<and> mset (bucketRowsFor (syncDailyBucketRows db sid dk rows) sid dk) = mset rows
    \<and> db_analyticsDaily (syncDailyBucketRows db sid dk rows) = db_analyticsDaily db
    \<and> db_fieldDaily (syncDailyBucketRows db sid dk rows) = db_fieldDaily db
    \<and> db_textDaily (syncDailyBucketRows db sid dk rows) = db_textDaily db
    \<and> db_responses (syncDailyBucketRows db sid dk rows) = db_responses db
    \<and> db_versions (syncDailyBucketRows db sid dk rows) = db_versions db
    \<and> db_metricsDaily (syncDailyBucketRows db sid dk rows) = db_metricsDaily db
    \<and> db_surveys (syncDailyBucketRows db sid dk rows) = db_surveys db"
proof -
  define S where "S = (\<lambda>r :: bucketRow. b_surveyId r = sid \<and> b_dateKey r = dk)"
  obtain tbl' n' where run: "syncRows compositeKey S rows (db_bucketsDaily db, db_nextId db) = (tbl', n')"
    by (cases "syncRows compositeKey S rows (db_bucketsDaily db, db_nextId db)") auto
  have res: "syncDailyBucketRows db sid dk rows = db\<lparr> db_bucketsDaily := tbl', db_nextId := n' \<rparr>"
    using run by (simp add: syncDailyBucketRows_def S_def)
  from ok have t: "tableOk (db_bucketsDaily db) (db_nextId db)" by (simp add: databaseOk_def)
  have sc': "list_all S rows" using sc by (simp add: S_def)
  note c = syncRows_content [OF t sc' run]
  have "databaseOk (db\<lparr> db_bucketsDaily := tbl', db_nextId := n' \<rparr>)"
    using ok c(1) c(4) by (auto simp: databaseOk_def intro: tableOk_mono)
  moreover have "mset (bucketRowsFor (db\<lparr> db_bucketsDaily := tbl', db_nextId := n' \<rparr>) sid dk) = mset rows"
    using c(2) by (simp add: bucketRowsFor_def S_def)
  ultimately show ?thesis unfolding res by simp
qed

lemma syncDailyTextRows_spec:
  assumes ok: "databaseOk db"
    and sc: "list_all (\<lambda>r. t_surveyId r = sid \<and> t_dateKey r = dk) rows"
  shows "databaseOk (syncDailyTextRows db sid dk rows)
    \<and> db_analyticsDaily (syncDailyTextRows db sid dk rows) = db_analyticsDaily db
    \<and> db_fieldDaily (syncDailyTextRows db sid dk rows) = db_fieldDaily db
    \<and> db_bucketsDaily (syncDailyTextRows db sid dk rows) = db_bucketsDaily db
    \<and> db_responses (syncDailyTextRows db sid dk rows) = db_responses db
    \<and> db_versions (syncDailyTextRows db sid dk rows) = db_versions db
    \<and> db_metricsDaily (syncDailyTextRows db sid dk rows) = db_metricsDaily db
    \<and> db_surveys (syncDailyTextRows db sid dk rows) = db_surveys db"
proof -
  define S where "S = (\<lambda>r :: textRow. t_surveyId r = sid \<and> t_dateKey r = dk)"
  obtain tbl' n' where run: "syncRows t_fieldId S rows (db_textDaily db, db_nextId db) = (tbl', n')"
    by (cases "syncRows t_fieldId S rows (db_textDaily db, db_nextId db)") auto
  have res: "syncDailyTextRows db sid dk rows = db\<lparr> db_textDaily := tbl', db_nextId := n' \<rparr>"
    using run by (simp add: syncDailyTextRows_def S_def)
  from ok have t: "tableOk (db_textDaily db) (db_nextId db)" by (simp add: databaseOk_def)
  have sc': "list_all S rows" using sc by (simp add: S_def)
  note c = syncRows_content [OF t sc' run]
  have "databaseOk (db\<lparr> db_textDaily := tbl', db_nextId := n' \<rparr>)"
    using ok c(1) c(4) by (auto simp: databaseOk_def intro: tableOk_mono)
  then show ?thesis unfolding res by simp
qed

lemma fieldRowsOf_scope:
  "list_all (\<lambda>r. fr_surveyId r = sid \<and> fr_dateKey r = dk) (fieldRowsOf sid dk now aggs)"
  by (simp add: fieldRowsOf_def fieldRowOf_def list_all_iff)

lemma textRowsOf_scope:
  "list_all (\<lambda>r. t_surveyId r = sid \<and> t_dateKey r = dk) (textRowsOf lib sid dk now aggs)"
  by (simp add: textRowsOf_def list_all_iff)

lemma fold_padBucket_scope:
  "list_all (\<lambda>r. b_surveyId r = sid \<and> b_dateKey r = dk) rows \<Longrightarrow>
     list_all (\<lambda>r. b_surveyId r = sid \<and> b_dateKey r = dk)
       (fold (padBucket sid dk now fieldId labels) vs rows)"
  by (induction vs arbitrary: rows) (simp_all add: padBucket_def)

lemma bucketRowsOfAggregate_scope:
  "list_all (\<lambda>r. b_surveyId r = sid \<and> b_dateKey r = dk) (bucketRowsOfAggregate sid dk now a)"
proof -
  have base: "list_all (\<lambda>r. b_surveyId r = sid \<and> b_dateKey r = dk)
                (map (bucketRowOf sid dk now (a_fieldId a)) (a_bucketMap a))"
    by (simp add: list_all_iff bucketRowOf_def)
  have opt: "list_all (\<lambda>r. b_surveyId r = sid \<and> b_dateKey r = dk)
      (if a_kind a = single_select \<or> a_kind a = multi_select
       then fold (padBucket sid dk now (a_fieldId a) (a_optionLabels a)) (a_optionOrder a)
              (map (bucketRowOf sid dk now (a_fieldId a)) (a_bucketMap a))
       else map (bucketRowOf sid dk now (a_fieldId a)) (a_bucketMap a))"
    using base fold_padBucket_scope by (simp only: if_split) blast
  show ?thesis
    unfolding bucketRowsOfAggregate_def Let_def
    using opt fold_padBucket_scope by (simp only: if_split) blast
qed

lemma bucketRowsOf_scope:
  "list_all (\<lambda>r. b_surveyId r = sid \<and> b_dateKey r = dk) (bucketRowsOf sid dk now aggs)"
  using bucketRowsOfAggregate_scope [of sid dk now]
  by (auto simp: bucketRowsOf_def list_all_iff)

definition freshAnalyticsRow ::
  "database \<Rightarrow> nat \<Rightarrow> dateKey \<Rightarrow> int \<Rightarrow> metricsRow option \<Rightarrow> analyticsRow" where
  "freshAnalyticsRow db surveyId day now metrics =
     analyticsRowOf surveyId day now metrics
       (length (getResponsesForSurveyDate db surveyId day))
       (fst (freshAggregates db surveyId day)) (fst (snd (freshAggregates db surveyId day)))"

lemma analyticsRowOf_key:
  "an_surveyId (analyticsRowOf sid dk now metrics n tg ss) = sid
   \<and> an_dateKey (analyticsRowOf sid dk now metrics n tg ss) = dk"
  by (simp add: analyticsRowOf_def Let_def)

lemma rebuild_unfold:
  assumes "rebuildDailyMaterializedAnalytics lib db sid (Some dk) inc now = Inr db1"
  shows "\<exists>metrics. metricsFor db sid dk = Inr metrics
    \<and> db1 = (if inc
             then syncDailyTextRows
                    (syncDailyBucketRows
                       (syncDailyFieldRows
                          (upsertSurveyAnalyticsDailyRow db (freshAnalyticsRow db sid dk now metrics))
                          sid dk (freshFieldRows db sid dk now))
                       sid dk (freshBucketRows db sid dk now))
                    sid dk (textRowsOf lib sid dk now (snd (snd (freshAggregates db sid dk))))
             else syncDailyBucketRows
                    (syncDailyFieldRows
                       (upsertSurveyAnalyticsDailyRow db (freshAnalyticsRow db sid dk now metrics))
                       sid dk (freshFieldRows db sid dk now))
                    sid dk (freshBucketRows db sid dk now))"
  using assms
  by (auto simp: rebuildDailyMaterializedAnalytics_def normalizeDateKey_def Let_def
        freshAnalyticsRow_def freshFieldRows_def freshBucketRows_def freshAggregates_def
      split: sum.splits prod.splits if_splits)

lemma rebuild_spec:
  assumes ok: "databaseOk db"
    and run: "rebuildDailyMaterializedAnalytics lib db sid (Some dk) inc now = Inr db1"
  shows "databaseOk db1
    \<and> db_responses db1 = db_responses db \<and> db_versions db1 = db_versions db
    \<and> db_metricsDaily db1 = db_metricsDaily db \<and> db_surveys db1 = db_surveys db
    \<and> (\<exists>metrics. metricsFor db sid dk = Inr metrics
          \<and> analyticsRowsFor db1 sid dk = [freshAnalyticsRow db sid dk now metrics])
    \<and> mset (fieldRowsFor db1 sid dk) = mset (freshFieldRows db sid dk now)
    \<and> mset (bucketRowsFor db1 sid dk) = mset (freshBucketRows db sid dk now)"
proof -
  from rebuild_unfold [OF run] obtain metrics where mf: "metricsFor db sid dk = Inr metrics"
    and db1: "db1 = (if inc
             then syncDailyTextRows
                    (syncDailyBucketRows
                       (syncDailyFieldRows
                          (upsertSurveyAnalyticsDailyRow db (freshAnalyticsRow db sid dk now metrics))
                          sid dk (freshFieldRows db sid dk now))
                       sid dk (freshBucketRows db sid dk now))
                    sid dk (textRowsOf lib sid dk now (snd (snd (freshAggregates db sid dk))))
             else syncDailyBucketRows
                    (syncDailyFieldRows
                       (upsertSurveyAnalyticsDailyRow db (freshAnalyticsRow db sid dk now metrics))
                       sid dk (freshFieldRows db sid dk now))
                    sid dk (freshBucketRows db sid dk now))"
    by blast
  define arow where "arow = freshAnalyticsRow db sid dk now metrics"
  define dbA where "dbA = upsertSurveyAnalyticsDailyRow db arow"
  define dbF where "dbF = syncDailyFieldRows dbA sid dk (freshFieldRows db sid dk now)"
  define dbB where "dbB = syncDailyBucketRows dbF sid dk (freshBucketRows db sid dk now)"
  define dbT where
    "dbT = syncDailyTextRows dbB sid dk (textRowsOf lib sid dk now (snd (snd (freshAggregates db sid dk))))"
  have key: "an_surveyId arow = sid" "an_dateKey arow = dk"
    using analyticsRowOf_key by (simp_all add: arow_def freshAnalyticsRow_def)
  have okA: "databaseOk dbA" unfolding dbA_def by (rule upsert_ok [OF ok])
  have tA: "tableOk (db_analyticsDaily db) (db_nextId db)" using ok by (simp add: databaseOk_def)
  have rowsA: "analyticsRowsFor dbA sid dk = [arow]"
    using upsert_table [OF tA, of arow] key by (simp add: dbA_def)
  have othA: "db_responses dbA = db_responses db" "db_versions dbA = db_versions db"
    "db_metricsDaily dbA = db_metricsDaily db" "db_surveys dbA = db_surveys db"
    using upsert_others [of db arow] by (simp_all add: dbA_def)
  note F = syncDailyFieldRows_spec [OF okA fieldRowsOf_scope,
      of sid dk now "snd (snd (freshAggregates db sid dk))", folded freshFieldRows_def dbF_def]
  have okF: "databaseOk dbF" using F by simp
  note B = syncDailyBucketRows_spec [OF okF bucketRowsOf_scope,
      of sid dk now "snd (snd (freshAggregates db sid dk))", folded freshBucketRows_def dbB_def]
  have okB: "databaseOk dbB" using B by simp
  note T = syncDailyTextRows_spec [OF okB textRowsOf_scope,
      of sid dk lib now "snd (snd (freshAggregates db sid dk))", folded dbT_def]
  have aB: "analyticsRowsFor dbB sid dk = [arow]"
    using rowsA F B by (simp add: analyticsRowsFor_def)
  have fB: "mset (fieldRowsFor dbB sid dk) = mset (freshFieldRows db sid dk now)"
    using F B by (simp add: fieldRowsFor_def)
  have bB: "mset (bucketRowsFor dbB sid dk) = mset (freshBucketRows db sid dk now)"
    using B by simp
  have inB: "db_responses dbB = db_responses db" "db_versions dbB = db_versions db"
    "db_metricsDaily dbB = db_metricsDaily db" "db_surveys dbB = db_surveys db"
    using othA F B by simp_all
  have aT: "analyticsRowsFor dbT sid dk = [arow]"
    using aB T by (simp add: analyticsRowsFor_def)
  have fT: "mset (fieldRowsFor dbT sid dk) = mset (freshFieldRows db sid dk now)"
    using fB T by (simp add: fieldRowsFor_def)
  have bT: "mset (bucketRowsFor dbT sid dk) = mset (freshBucketRows db sid dk now)"
    using bB T by (simp add: bucketRowsFor_def)
  have inT: "db_responses dbT = db_responses db" "db_versions dbT = db_versions db"
    "db_metricsDaily dbT = db_metricsDaily db" "db_surveys dbT = db_surveys db"
    using inB T by simp_all
  have okT: "databaseOk dbT" using T by simp
  have res: "db1 = (if inc then dbT else dbB)"
    using db1 by (simp add: dbT_def dbB_def dbF_def dbA_def arow_def)
  show ?thesis
  proof (cases inc)
    case True
    then have "db1 = dbT" using res by simp
    then show ?thesis using okT inT aT fT bT mf by (simp add: arow_def)
  next
    case False
    then have "db1 = dbB" using res by simp
    then show ?thesis using okB inB aB fB bB mf by (simp add: arow_def)
  qed
qed

lemma rebuild_total:
  "metricsFor db sid dk = Inr metrics \<Longrightarrow>
     \<exists>db'. rebuildDailyMaterializedAnalytics lib db sid (Some dk) inc now = Inr db'"
  by (simp add: rebuildDailyMaterializedAnalytics_def normalizeDateKey_def Let_def
        split: prod.splits)

lemma fresh_cong:
  assumes "db_responses db' = db_responses db" and "db_versions db' = db_versions db"
  shows "freshAggregates db' sid dk = freshAggregates db sid dk"
    and "freshFieldRows db' sid dk now = freshFieldRows db sid dk now"
    and "freshBucketRows db' sid dk now = freshBucketRows db sid dk now"
    and "freshAnalyticsRow db' sid dk now metrics = freshAnalyticsRow db sid dk now metrics"
  using assms
  by (simp_all add: freshAggregates_def freshFieldRows_def freshBucketRows_def
        freshAnalyticsRow_def getResponsesForSurveyDate_def)

lemma freshAggregates_ok: "aggregatesOk (snd (snd (freshAggregates db sid dk)))"
proof -
  obtain g s aggs where f: "freshAggregates db sid dk = (g, s, aggs)"
    by (cases "freshAggregates db sid dk") auto
  have "aggregatesOk []" by (simp add: aggregatesOk_def)
  from aggregateResponses_ok [OF this f [unfolded freshAggregates_def]] f show ?thesis by simp
qed

text \<open>
  Claim C1.  For every survey id, UTC day and fixed \<open>now\<close>, a rebuild that ran on any database
  (documents with distinct ids) can be run again on its result, and the second run leaves the
  same summary row, the same per-field rows and the same bucket rows for that survey and day as
  the first.  After a rebuild the day has one summary row, one row for each field id and one
  for each (field id, bucket key), and its rows are exactly the freshly computed ones: a row
  found before the rebuild whose key the fresh computation does not have is gone.  Rows are
  compared by their contents (the multiset of the rows of the day).
\<close>

theorem rebuild_idempotent:
  assumes "databaseOk db"
    and "rebuildDailyMaterializedAnalytics lib db surveyId (Some day) includeText now = Inr db1"
  shows "\<exists>db2. rebuildDailyMaterializedAnalytics lib db1 surveyId (Some day) includeText now = Inr db2
     \<and> analyticsRowsFor db2 surveyId day = analyticsRowsFor db1 surveyId day
     \<and> mset (fieldRowsFor db2 surveyId day) = mset (fieldRowsFor db1 surveyId day)
     \<and> mset (bucketRowsFor db2 surveyId day) = mset (bucketRowsFor db1 surveyId day)
     \<and> length (analyticsRowsFor db1 surveyId day) = 1
     \<and> distinct (map fr_fieldId (fieldRowsFor db1 surveyId day))
     \<and> distinct (map (\<lambda>row. (b_fieldId row, b_bucketKey row)) (bucketRowsFor db1 surveyId day))
     \<and> mset (fieldRowsFor db1 surveyId day) = mset (freshFieldRows db surveyId day now)
     \<and> mset (bucketRowsFor db1 surveyId day) = mset (freshBucketRows db surveyId day now)"
proof -
  from rebuild_spec [OF assms]
  obtain metrics where ok1: "databaseOk db1"
    and in1: "db_responses db1 = db_responses db" "db_versions db1 = db_versions db"
      "db_metricsDaily db1 = db_metricsDaily db"
    and mf: "metricsFor db surveyId day = Inr metrics"
    and a1: "analyticsRowsFor db1 surveyId day = [freshAnalyticsRow db surveyId day now metrics]"
    and f1: "mset (fieldRowsFor db1 surveyId day) = mset (freshFieldRows db surveyId day now)"
    and b1: "mset (bucketRowsFor db1 surveyId day) = mset (freshBucketRows db surveyId day now)"
    by blast
  have mf1: "metricsFor db1 surveyId day = Inr metrics"
    using mf in1(3) by (simp add: metricsFor_def)
  from rebuild_total [OF mf1] obtain db2 where
    run2: "rebuildDailyMaterializedAnalytics lib db1 surveyId (Some day) includeText now = Inr db2"
    by blast
  from rebuild_spec [OF ok1 run2] mf1
  have a2: "analyticsRowsFor db2 surveyId day = [freshAnalyticsRow db1 surveyId day now metrics]"
    and f2: "mset (fieldRowsFor db2 surveyId day) = mset (freshFieldRows db1 surveyId day now)"
    and b2: "mset (bucketRowsFor db2 surveyId day) = mset (freshBucketRows db1 surveyId day now)"
    by auto
  note fc = fresh_cong [OF in1(1) in1(2)]
  have df: "distinct (map fr_fieldId (fieldRowsFor db1 surveyId day))"
  proof -
    have "mset (map fr_fieldId (fieldRowsFor db1 surveyId day))
            = mset (map fr_fieldId (freshFieldRows db surveyId day now))"
      using f1 by (metis mset_map)
    moreover have "distinct (map fr_fieldId (freshFieldRows db surveyId day now))"
      unfolding freshFieldRows_def by (rule fieldRowsOf_distinct [OF freshAggregates_ok])
    ultimately show ?thesis by (metis mset_eq_imp_distinct_iff)
  qed
  have dbk: "distinct (map (\<lambda>row. (b_fieldId row, b_bucketKey row)) (bucketRowsFor db1 surveyId day))"
  proof -
    have "mset (map (\<lambda>row. (b_fieldId row, b_bucketKey row)) (bucketRowsFor db1 surveyId day))
            = mset (map (\<lambda>row. (b_fieldId row, b_bucketKey row)) (freshBucketRows db surveyId day now))"
      using b1 by (metis mset_map)
    moreover have "distinct (map (\<lambda>row. (b_fieldId row, b_bucketKey row))
                               (freshBucketRows db surveyId day now))"
      unfolding freshBucketRows_def using bucketRowsOf_distinct [OF freshAggregates_ok] by blast
    ultimately show ?thesis by (metis mset_eq_imp_distinct_iff)
  qed
  show ?thesis
    using run2 a1 a2 f1 f2 b1 b2 fc df dbk by simp
qed

lemma toPercent_le_100:
  assumes "c \<le> s"
  shows "toPercent (of_int c) (of_int s) \<le> 100"
proof (cases "s \<le> 0")
  case True
  then show ?thesis by (simp add: toPercent_def)
next
  case False
  then have pos: "(0::rat) < of_int s" by simp
  have "(of_int c :: rat) \<le> of_int s" using assms by simp
  then have "(of_int c :: rat) / of_int s \<le> 1" using pos by (simp add: divide_le_eq)
  then have "(of_int c :: rat) / of_int s * 100 * 100 \<le> 10000" by simp
  then have "js_round ((of_int c :: rat) / of_int s * 100 * 100) \<le> 10000"
    unfolding js_round_def by (simp add: floor_le_iff)
  then have "(of_int (js_round ((of_int c :: rat) / of_int s * 100 * 100)) :: rat) \<le> 10000"
    by (metis of_int_le_iff of_int_numeral)
  then show ?thesis using False by (simp add: toPercent_def roundToTwo_def)
qed

lemma responses_of_day:
  "getResponsesForSurveyDate db sid dk
     = filter (\<lambda>r. r_surveyId r = sid \<and> dateKeyFromTimestamp (r_submittedAt r) = dk)
         (db_responses db)"
  by (simp add: getResponsesForSurveyDate_def day_bounds)

text \<open>
  Claim C10.  After a rebuild for a survey and day, the day's \<open>surveyAnalyticsDaily\<close> row has
  \<open>completed\<close> at least the number of the survey's responses submitted in that UTC day and
  \<open>started\<close> at least \<open>completed\<close>, so that the conversion rate \<open>toPercent(completed, started)\<close>
  is at most 100.
\<close>

theorem rebuild_floors_completed_and_started:
  assumes "databaseOk db"
    and "rebuildDailyMaterializedAnalytics lib db surveyId (Some day) includeText now = Inr db1"
  shows "\<exists>row. analyticsRowsFor db1 surveyId day = [row]
     \<and> int (length (filter (\<lambda>r. r_surveyId r = surveyId
                                  \<and> dateKeyFromTimestamp (r_submittedAt r) = day)
                       (db_responses db1))) \<le> an_completed row
     \<and> an_completed row \<le> an_started row
     \<and> toPercent (of_int (an_completed row)) (of_int (an_started row)) \<le> 100"
proof -
  from rebuild_spec [OF assms]
  obtain metrics where in1: "db_responses db1 = db_responses db"
    and a1: "analyticsRowsFor db1 surveyId day = [freshAnalyticsRow db surveyId day now metrics]"
    by blast
  let ?row = "freshAnalyticsRow db surveyId day now metrics"
  have c: "int (length (getResponsesForSurveyDate db surveyId day)) \<le> an_completed ?row"
    by (simp add: freshAnalyticsRow_def analyticsRowOf_def Let_def)
  have s: "an_completed ?row \<le> an_started ?row"
    by (simp add: freshAnalyticsRow_def analyticsRowOf_def Let_def)
  from c have "int (length (filter (\<lambda>r. r_surveyId r = surveyId
                                  \<and> dateKeyFromTimestamp (r_submittedAt r) = day)
                       (db_responses db1))) \<le> an_completed ?row"
    by (simp add: responses_of_day in1)
  with a1 s toPercent_le_100 [OF s] show ?thesis by blast
qed

text \<open>A survey version of three text questions, one response, and an empty set of rollups.\<close>

definition exampleField :: "string \<Rightarrow> int \<Rightarrow> surveyField" where
  "exampleField fieldId ord =
     \<lparr> f_id = fieldId, f_kind = short_text, f_label = ''Question'', f_required = False,
       f_order = ord, f_options = None, f_validation = None, f_correctness = None \<rparr>"

definition exampleVersion :: surveyVersion where
  "exampleVersion =
     \<lparr> sv_surveyId = 1, sv_version = 1,
       sv_fields = [exampleField ''q0'' 0, exampleField ''q1'' 1, exampleField ''q2'' 2] \<rparr>"

definition exampleResponse :: "answers \<Rightarrow> surveyResponse" where
  "exampleResponse ans =
     \<lparr> r_surveyId = 1, r_surveyVersionId = 7, r_submittedAt = 1000, r_answers = ans,
       r_grading = None \<rparr>"

definition exampleDatabase :: database where
  "exampleDatabase =
     \<lparr> db_surveys = [1 \<mapsto> \<lparr> sy_createdByUserId = 5 \<rparr>],
       db_versions = [(7, exampleVersion)],
       db_responses = [exampleResponse [''q0'' \<mapsto> AString ''Ann'']],
       db_metricsDaily = [], db_analyticsDaily = [], db_fieldDaily = [], db_bucketsDaily = [],
       db_textDaily = [], db_nextId = 0 \<rparr>"

definition noTextFns :: textFns where
  "noTextFns = \<lparr> topPhraseRows = (\<lambda>_. []), snippetRows = (\<lambda>_. []) \<rparr>"

lemma exampleDatabase_ok: "databaseOk exampleDatabase"
  by (simp add: databaseOk_def tableOk_def exampleDatabase_def)

lemma exampleDatabase_runs:
  "\<exists>db1. rebuildDailyMaterializedAnalytics noTextFns exampleDatabase 1 (Some 0) False 2000 = Inr db1"
  by (rule rebuild_total [of _ _ _ None]) (simp add: metricsFor_def uniqueRow_def exampleDatabase_def)

theorem rebuild_idempotent_witness:
  "databaseOk exampleDatabase
   \<and> (\<exists>db1 db2.
        rebuildDailyMaterializedAnalytics noTextFns exampleDatabase 1 (Some 0) False 2000 = Inr db1
      \<and> rebuildDailyMaterializedAnalytics noTextFns db1 1 (Some 0) False 2000 = Inr db2
      \<and> analyticsRowsFor db2 1 0 = analyticsRowsFor db1 1 0
      \<and> mset (fieldRowsFor db2 1 0) = mset (fieldRowsFor db1 1 0)
      \<and> mset (bucketRowsFor db2 1 0) = mset (bucketRowsFor db1 1 0)
      \<and> length (fieldRowsFor db1 1 0) = 3)"
proof -
  from exampleDatabase_runs obtain db1 where
    run: "rebuildDailyMaterializedAnalytics noTextFns exampleDatabase 1 (Some 0) False 2000 = Inr db1"
    by blast
  from rebuild_idempotent [OF exampleDatabase_ok run]
  obtain db2 where
    r2: "rebuildDailyMaterializedAnalytics noTextFns db1 1 (Some 0) False 2000 = Inr db2"
    and a: "analyticsRowsFor db2 1 0 = analyticsRowsFor db1 1 0"
    and f: "mset (fieldRowsFor db2 1 0) = mset (fieldRowsFor db1 1 0)"
    and b: "mset (bucketRowsFor db2 1 0) = mset (bucketRowsFor db1 1 0)"
    and fr: "mset (fieldRowsFor db1 1 0) = mset (freshFieldRows exampleDatabase 1 0 2000)"
    by blast
  have "length (freshFieldRows exampleDatabase 1 0 2000) = 3"
    by code_simp
  with fr have "length (fieldRowsFor db1 1 0) = 3" by (metis mset_eq_length)
  with exampleDatabase_ok run r2 a f b show ?thesis by blast
qed

theorem rebuild_floors_witness:
  "databaseOk exampleDatabase
   \<and> (\<exists>db1 row.
        rebuildDailyMaterializedAnalytics noTextFns exampleDatabase 1 (Some 0) False 2000 = Inr db1
      \<and> analyticsRowsFor db1 1 0 = [row]
      \<and> 1 \<le> an_completed row \<and> an_completed row \<le> an_started row)"
proof -
  from exampleDatabase_runs obtain db1 where
    run: "rebuildDailyMaterializedAnalytics noTextFns exampleDatabase 1 (Some 0) False 2000 = Inr db1"
    by blast
  from rebuild_spec [OF exampleDatabase_ok run]
  have in1: "db_responses db1 = db_responses exampleDatabase" by blast
  have n: "int (length (filter (\<lambda>r. r_surveyId r = 1 \<and> dateKeyFromTimestamp (r_submittedAt r) = 0)
                          (db_responses db1))) = 1"
    unfolding in1 by (simp add: exampleDatabase_def exampleResponse_def dateKeyFromTimestamp_def msPerDay_def)
  from rebuild_floors_completed_and_started [OF exampleDatabase_ok run] n
  obtain row where "analyticsRowsFor db1 1 0 = [row]" "1 \<le> an_completed row"
    "an_completed row \<le> an_started row"
    by auto
  with exampleDatabase_ok run show ?thesis by blast
qed

theorem reached_iff_answered_at_or_after_witness:
  "[7 \<mapsto> exampleVersion] (r_surveyVersionId (exampleResponse [''q2'' \<mapsto> AString ''late''])) = Some exampleVersion
   \<and> exampleField ''q0'' 0 \<in> set (sv_fields exampleVersion)
   \<and> distinct (map f_id (sv_fields exampleVersion))
   \<and> set (map f_id (sv_fields exampleVersion)) \<inter> set objectPrototypeKeys = {}
   \<and> reachedCountOf (aggregateResponse [7 \<mapsto> exampleVersion]
                        (exampleResponse [''q2'' \<mapsto> AString ''late'']) []) ''q0'' = 1"
proof -
  have v: "[7 \<mapsto> exampleVersion] (r_surveyVersionId (exampleResponse [''q2'' \<mapsto> AString ''late'']))
             = Some exampleVersion"
    by (simp add: exampleResponse_def)
  have m: "exampleField ''q0'' 0 \<in> set (sv_fields exampleVersion)"
    by (simp add: exampleVersion_def)
  have d: "distinct (map f_id (sv_fields exampleVersion))"
    by (simp add: exampleVersion_def exampleField_def)
  have k: "set (map f_id (sv_fields exampleVersion)) \<inter> set objectPrototypeKeys = {}"
    by (simp add: exampleVersion_def exampleField_def objectPrototypeKeys_def)
  have p: "isAnswerPresent (r_answers (exampleResponse [''q2'' \<mapsto> AString ''late'']) ''q2'')"
    by (simp add: exampleResponse_def js_trim_def isWhitespace_def)
  have "reachedCountOf (aggregateResponse [7 \<mapsto> exampleVersion]
                        (exampleResponse [''q2'' \<mapsto> AString ''late'']) []) ''q0'' = 1"
    using reached_iff_answered_at_or_after
            [of "[7 \<mapsto> exampleVersion]" "exampleResponse [''q2'' \<mapsto> AString ''late'']"
                exampleVersion "exampleField ''q0'' 0" "[]", OF v m d k]
    by (simp add: exampleField_def reachedCountOf_def)
  with v m d k show ?thesis by blast
qed

text \<open>
  A field whose id names a member of \<open>Object.prototype\<close> is read as answered although the
  response stores no answer for it: with the fields \<open>q0\<close> (order 0) and \<open>constructor\<close> (order 1)
  and no answer at all, \<open>maxReachedOrder\<close> is 1 and both fields are counted as reached.
\<close>

lemma inherited_member_counts_as_answered:
  "reachedCountOf
     (aggregateResponse
        [7 \<mapsto> \<lparr> sv_surveyId = 1, sv_version = 1,
                  sv_fields = [exampleField ''q0'' 0, exampleField ''constructor'' 1] \<rparr>]
        (exampleResponse Map.empty) []) ''constructor'' = 1"
  by code_simp

text \<open>
  Claim C2 as written fails: with the fields \<open>q0\<close>, \<open>q1\<close>, \<open>q2\<close> and only \<open>q0\<close> answered, the
  field \<open>q1\<close> is not counted as reached although \<open>q0\<close>, at an earlier order position, has a
  present answer.
\<close>

theorem reached_iff_answered_at_or_before_counterexample:
  "reachedCountOf (aggregateResponse [7 \<mapsto> exampleVersion]
                     (exampleResponse [''q0'' \<mapsto> AString ''Ann'']) []) ''q1'' = 0
   \<and> exampleField ''q0'' 0 \<in> set (sv_fields exampleVersion)
   \<and> exampleField ''q1'' 1 \<in> set (sv_fields exampleVersion)
   \<and> f_order (exampleField ''q0'' 0) \<le> f_order (exampleField ''q1'' 1)
   \<and> isAnswerPresent (r_answers (exampleResponse [''q0'' \<mapsto> AString ''Ann''])
                         (f_id (exampleField ''q0'' 0)))"
proof -
  have code: "reachedCountOf (aggregateResponse [7 \<mapsto> exampleVersion]
                          (exampleResponse [''q0'' \<mapsto> AString ''Ann'']) []) ''q1'' = 0"
    by code_simp
  moreover have "exampleField ''q0'' 0 \<in> set (sv_fields exampleVersion)"
    "exampleField ''q1'' 1 \<in> set (sv_fields exampleVersion)"
    by (simp_all add: exampleVersion_def)
  moreover have "f_order (exampleField ''q0'' 0) \<le> f_order (exampleField ''q1'' 1)"
    by (simp add: exampleField_def)
  moreover have "isAnswerPresent (r_answers (exampleResponse [''q0'' \<mapsto> AString ''Ann''])
                                    (f_id (exampleField ''q0'' 0)))"
    by (simp add: exampleResponse_def exampleField_def js_trim_def isWhitespace_def)
  ultimately show ?thesis by simp
qed

section \<open>Answer validation (lib/zod.ts)\<close>

text \<open>
  \<open>validateAnswerWithZod\<close> returns an error message or \<open>null\<close>; the messages are a datatype here
  and \<open>null\<close> is \<open>None\<close>.  Three things are the libraries' and not the repository's, and are
  parameters: the test of the email pattern, \<open>new RegExp(pattern).test(value)\<close>, and what
  \<open>z.number()\<close> makes of an infinite number.  \<open>z.number()\<close> rejects every value that is not a
  number and rejects \<open>NaN\<close>; zod 3 accepts \<open>Infinity\<close> and \<open>-Infinity\<close>, zod 4 rejects them, and
  the sources do not say which zod is installed.
\<close>

record validationEnv =
  zodAcceptsInfinite :: bool
  emailTest :: "string \<Rightarrow> bool"
  regExpTest :: "string \<Rightarrow> string \<Rightarrow> bool"

datatype validationError =
  RequiredField | ExpectedString | InvalidEmail | InvalidOption | MinimumLength nat
| MaximumLength nat | PatternMismatch | ExpectedStringArray | InvalidOptions | ExpectedNumber
| RatingOutOfRange | MinimumValue jsnum | MaximumValue jsnum

fun zNumber :: "validationEnv \<Rightarrow> answerValue option \<Rightarrow> jsnum option" where
  "zNumber env (Some (ANumber (Fin q))) = Some (Fin q)"
| "zNumber env (Some (ANumber NaN)) = None"
| "zNumber env (Some (ANumber n)) = (if zodAcceptsInfinite env then Some n else None)"
| "zNumber env _ = None"

fun isAbsent :: "answerValue option \<Rightarrow> bool" where
  "isAbsent None = True"
| "isAbsent (Some ANull) = True"
| "isAbsent (Some (AString s)) = (length (js_trim s) = 0)"
| "isAbsent (Some (AArray xs)) = (length xs = 0)"
| "isAbsent (Some _) = False"

definition optionValues :: "surveyField \<Rightarrow> string list" where
  "optionValues fld = map o_value (case f_options fld of None \<Rightarrow> [] | Some os \<Rightarrow> os)"

definition validationOf :: "surveyField \<Rightarrow> fieldValidation" where
  "validationOf fld =
     (case f_validation fld of
        None \<Rightarrow> \<lparr> v_minLength = None, v_maxLength = None, v_min = None, v_max = None,
                  v_pattern = None \<rparr>
      | Some v \<Rightarrow> v)"

text \<open>The branch of the string kinds (\<open>short_text\<close>, \<open>long_text\<close>, \<open>single_select\<close>, \<open>email\<close>, \<open>date\<close>).\<close>

definition validateString ::
  "validationEnv \<Rightarrow> surveyField \<Rightarrow> answerValue option \<Rightarrow> validationError option" where
  "validateString env fld v =
     (case v of
        Some (AString s) \<Rightarrow>
          (if f_kind fld = email \<and> \<not> emailTest env s then Some InvalidEmail
           else if f_kind fld = single_select \<and> optionValues fld \<noteq> []
                   \<and> s \<notin> set (optionValues fld) then Some InvalidOption
           else if (case v_minLength (validationOf fld) of None \<Rightarrow> False
                    | Some n \<Rightarrow> length s < n)
                then Some (MinimumLength (the (v_minLength (validationOf fld))))
           else if (case v_maxLength (validationOf fld) of None \<Rightarrow> False
                    | Some n \<Rightarrow> length s > n)
                then Some (MaximumLength (the (v_maxLength (validationOf fld))))
           else if (case v_pattern (validationOf fld) of None \<Rightarrow> False
                    | Some p \<Rightarrow> p \<noteq> [] \<and> \<not> regExpTest env p s)
                then Some PatternMismatch
           else None)
      | _ \<Rightarrow> Some ExpectedString)"

definition validateMultiSelect ::
  "surveyField \<Rightarrow> answerValue option \<Rightarrow> validationError option" where
  "validateMultiSelect fld v =
     (case v of
        Some (AArray xs) \<Rightarrow>
          (if optionValues fld \<noteq> [] \<and> list_ex (\<lambda>entry. entry \<notin> set (optionValues fld)) xs
           then Some InvalidOptions else None)
      | _ \<Rightarrow> Some ExpectedStringArray)"

text \<open>The branch of \<open>number\<close> and \<open>rating_1_5\<close>.\<close>

definition validateNumber ::
  "validationEnv \<Rightarrow> surveyField \<Rightarrow> answerValue option \<Rightarrow> validationError option" where
  "validateNumber env fld v =
     (case zNumber env v of
        None \<Rightarrow> Some ExpectedNumber
      | Some n \<Rightarrow>
          (if f_kind fld = rating_1_5 \<and> (js_lt n (Fin 1) \<or> js_gt n (Fin 5))
           then Some RatingOutOfRange
           else if (case v_min (validationOf fld) of None \<Rightarrow> False | Some lo \<Rightarrow> js_lt n lo)
                then Some (MinimumValue (the (v_min (validationOf fld))))
           else if (case v_max (validationOf fld) of None \<Rightarrow> False | Some hi \<Rightarrow> js_gt n hi)
                then Some (MaximumValue (the (v_max (validationOf fld))))
           else None))"

definition validateAnswerWithZod ::
  "validationEnv \<Rightarrow> surveyField \<Rightarrow> answerValue option \<Rightarrow> validationError option" where
  "validateAnswerWithZod env fld v =
     (if isAbsent v then (if f_required fld then Some RequiredField else None)
      else case f_kind fld of
             multi_select \<Rightarrow> validateMultiSelect fld v
           | number \<Rightarrow> validateNumber env fld v
           | rating_1_5 \<Rightarrow> validateNumber env fld v
           | _ \<Rightarrow> validateString env fld v)"

text \<open>\<open>validateAnswerForField\<close> (lib/utils.ts) throws \<open>INVALID_ANSWER\<close> with the field's id.\<close>

definition validateAnswerForField ::
  "validationEnv \<Rightarrow> surveyField \<Rightarrow> answerValue option \<Rightarrow> error + unit" where
  "validateAnswerForField env fld v =
     (case validateAnswerWithZod env fld v of
        Some zodError \<Rightarrow> Inl (INVALID_ANSWER (f_id fld))
      | None \<Rightarrow> Inr ())"

definition numberField :: "fieldKind \<Rightarrow> jsnum option \<Rightarrow> jsnum option \<Rightarrow> surveyField" where
  "numberField kind lo hi =
     \<lparr> f_id = ''n1'', f_kind = kind, f_label = ''How many?'', f_required = False, f_order = 0,
       f_options = None,
       f_validation = Some \<lparr> v_minLength = None, v_maxLength = None, v_min = lo, v_max = hi,
                             v_pattern = None \<rparr>,
       f_correctness = None \<rparr>"

definition zod4 :: validationEnv where
  "zod4 = \<lparr> zodAcceptsInfinite = False, emailTest = (\<lambda>s. True), regExpTest = (\<lambda>p s. True) \<rparr>"

definition zod3 :: validationEnv where
  "zod3 = \<lparr> zodAcceptsInfinite = True, emailTest = (\<lambda>s. True), regExpTest = (\<lambda>p s. True) \<rparr>"

subsection \<open>The two zod versions\<close>






text \<open>
  What an infinite number meets depends on the zod installed: with zod 3 a \<open>number\<close> field
  without a \<open>max\<close> accepts \<open>Infinity\<close>, with zod 4 it answers "Expected a number.".
\<close>

lemma infinity_under_zod3:
  "validateAnswerWithZod zod3 (numberField number None None) (Some (ANumber PosInf)) = None"
  by (simp add: validateAnswerWithZod_def numberField_def validateNumber_def zod3_def
        validationOf_def)

lemma infinity_under_zod4:
  "validateAnswerWithZod zod4 (numberField number None None) (Some (ANumber PosInf))
     = Some ExpectedNumber"
  by (simp add: validateAnswerWithZod_def numberField_def validateNumber_def zod4_def
        validationOf_def)

section \<open>The analytics read queries (analytics.ts, lib/analytics\_materialization.ts)\<close>

subsection \<open>Date ranges\<close>

text \<open>
  The constants of lib/constants.ts are not among the sources; the functions take them as a
  parameter.
\<close>

record constants =
  ANALYTICS_MAX_WINDOW_DAYS :: int
  ANALYTICS_MAX_CSV_ROWS :: int
  ANALYTICS_MAX_BUCKETS :: int
  ANALYTICS_MAX_TOP_PHRASES :: nat

text \<open>The \<open>while\<close> loop of \<open>buildDateKeys\<close>: one key for each day from the cursor to the last day.\<close>

function buildDateKeysLoop :: "dateKey \<Rightarrow> dateKey \<Rightarrow> dateKey list \<Rightarrow> dateKey list" where
  "buildDateKeysLoop cursor lastDay keys =
     (if cursor \<le> lastDay then buildDateKeysLoop (cursor + 1) lastDay (keys @ [cursor])
      else keys)"
  by pat_completeness auto
termination
  by (relation "measure (\<lambda>(cursor, lastDay, keys). nat (lastDay - cursor + 1))") auto

declare buildDateKeysLoop.simps [simp del]

definition buildDateKeys :: "dateInput \<Rightarrow> dateInput \<Rightarrow> error + dateKey list" where
  "buildDateKeys fromDate toDate =
     (case normalizeDateKey fromDate of
        Inl e \<Rightarrow> Inl e
      | Inr normalizedFrom \<Rightarrow>
          (case normalizeDateKey toDate of
             Inl e \<Rightarrow> Inl e
           | Inr normalizedTo \<Rightarrow>
               (if normalizedFrom > normalizedTo then Inr []
                else Inr (buildDateKeysLoop normalizedFrom normalizedTo []))))"

record analyticsDateRange =
  dr_fromDate :: dateKey
  dr_toDate :: dateKey
  dr_fromMillis :: int
  dr_toMillis :: int
  dr_dayKeys :: "dateKey list"

definition parseAnalyticsDateRange ::
  "constants \<Rightarrow> dateInput \<Rightarrow> dateInput \<Rightarrow> int option \<Rightarrow> error + analyticsDateRange" where
  "parseAnalyticsDateRange consts fromArg toArg maxDaysArg =
     (case normalizeDateKey fromArg of
        Inl e \<Rightarrow> Inl e
      | Inr fromDate \<Rightarrow>
          (case normalizeDateKey toArg of
             Inl e \<Rightarrow> Inl e
           | Inr toDate \<Rightarrow>
               (case buildDateKeys (Some fromDate) (Some toDate) of
                  Inl e \<Rightarrow> Inl e
                | Inr dayKeys \<Rightarrow>
                    (if length dayKeys = 0 then Inl INVALID_DATE_RANGE
                     else
                       let maxDays = (case maxDaysArg of
                                        None \<Rightarrow> ANALYTICS_MAX_WINDOW_DAYS consts
                                      | Some m \<Rightarrow> m)
                       in if int (length dayKeys) > maxDays then Inl ANALYTICS_WINDOW_TOO_LARGE
                          else Inr \<lparr> dr_fromDate = fromDate, dr_toDate = toDate,
                                     dr_fromMillis = startOfDay fromDate,
                                     dr_toMillis = endOfDay toDate,
                                     dr_dayKeys = dayKeys \<rparr>))))"

subsection \<open>Access\<close>

text \<open>
  The caller is what \<open>ctx.auth.getUserIdentity\<close> and the lookup in \<open>appUsers\<close> give: no identity,
  an identity with no profile, or an application user.
\<close>

datatype role = admin | member

record appUser =
  u_id :: nat
  u_role :: role
  u_workosUserId :: string

datatype caller = NoIdentity | NoProfile | SignedIn appUser

definition requireAppUser :: "caller \<Rightarrow> error + appUser" where
  "requireAppUser c =
     (case c of NoIdentity \<Rightarrow> Inl UNAUTHORIZED | NoProfile \<Rightarrow> Inl FORBIDDEN
      | SignedIn user \<Rightarrow> Inr user)"

definition assertSurveyOwnerOrAdmin :: "appUser \<Rightarrow> survey \<Rightarrow> error + unit" where
  "assertSurveyOwnerOrAdmin actor sv =
     (if u_role actor = admin \<or> sy_createdByUserId sv = u_id actor then Inr ()
      else Inl FORBIDDEN)"

definition requireSurveyWithAccess :: "caller \<Rightarrow> database \<Rightarrow> nat \<Rightarrow> error + survey option" where
  "requireSurveyWithAccess c db surveyId =
     (case requireAppUser c of
        Inl e \<Rightarrow> Inl e
      | Inr user \<Rightarrow>
          (case db_surveys db surveyId of
             None \<Rightarrow> Inr None
           | Some sv \<Rightarrow>
               (case assertSurveyOwnerOrAdmin user sv of
                  Inl e \<Rightarrow> Inl e
                | Inr _ \<Rightarrow> Inr (Some sv))))"

subsection \<open>Reading the rollups\<close>

text \<open>
  An index range scan returns the rows of the survey whose date key is in the range, by date
  key and, for equal date keys, in the order of creation.
\<close>

definition loadDailyAnalyticsRows ::
  "database \<Rightarrow> nat \<Rightarrow> dateKey \<Rightarrow> dateKey \<Rightarrow> analyticsRow list" where
  "loadDailyAnalyticsRows db surveyId fromDate toDate =
     sort_key an_dateKey
       (filter (\<lambda>row. an_surveyId row = surveyId \<and> fromDate \<le> an_dateKey row
                      \<and> an_dateKey row \<le> toDate)
          (map snd (db_analyticsDaily db)))"

definition loadFieldRows :: "database \<Rightarrow> nat \<Rightarrow> dateKey \<Rightarrow> dateKey \<Rightarrow> fieldRow list" where
  "loadFieldRows db surveyId fromDate toDate =
     sort_key fr_dateKey
       (filter (\<lambda>row. fr_surveyId row = surveyId \<and> fromDate \<le> fr_dateKey row
                      \<and> fr_dateKey row \<le> toDate)
          (map snd (db_fieldDaily db)))"

definition loadBucketRows :: "database \<Rightarrow> nat \<Rightarrow> dateKey \<Rightarrow> dateKey \<Rightarrow> bucketRow list" where
  "loadBucketRows db surveyId fromDate toDate =
     sort_key b_dateKey
       (filter (\<lambda>row. b_surveyId row = surveyId \<and> fromDate \<le> b_dateKey row
                      \<and> b_dateKey row \<le> toDate)
          (map snd (db_bucketsDaily db)))"

definition loadTextRows :: "database \<Rightarrow> nat \<Rightarrow> string \<Rightarrow> dateKey \<Rightarrow> dateKey \<Rightarrow> textRow list" where
  "loadTextRows db surveyId fieldId fromDate toDate =
     sort_key t_dateKey
       (filter (\<lambda>row. t_surveyId row = surveyId \<and> t_fieldId row = fieldId
                      \<and> fromDate \<le> t_dateKey row \<and> t_dateKey row \<le> toDate)
          (map snd (db_textDaily db)))"

subsection \<open>Funnel, scoring summary, trend series\<close>

record funnel =
  fn_started :: int
  fn_completed :: int
  fn_idle :: int
  fn_abandoned :: int
  fn_reactivated :: int
  fn_conversionRate :: rat

definition getSurveyFunnel ::
  "constants \<Rightarrow> caller \<Rightarrow> database \<Rightarrow> nat \<Rightarrow> dateInput \<Rightarrow> dateInput \<Rightarrow> error + funnel" where
  "getSurveyFunnel consts c db surveyId fromDate toDate =
     (case requireSurveyWithAccess c db surveyId of
        Inl e \<Rightarrow> Inl e
      | Inr None \<Rightarrow>
          Inr \<lparr> fn_started = 0, fn_completed = 0, fn_idle = 0, fn_abandoned = 0,
                fn_reactivated = 0, fn_conversionRate = 0 \<rparr>
      | Inr (Some sv) \<Rightarrow>
          (case parseAnalyticsDateRange consts fromDate toDate
                  (Some (ANALYTICS_MAX_WINDOW_DAYS consts)) of
             Inl e \<Rightarrow> Inl e
           | Inr rng \<Rightarrow>
               (let rows = loadDailyAnalyticsRows db surveyId (dr_fromDate rng) (dr_toDate rng)
                in Inr \<lparr> fn_started = sum_list (map an_started rows),
                         fn_completed = sum_list (map an_completed rows),
                         fn_idle = sum_list (map an_idle rows),
                         fn_abandoned = sum_list (map an_abandoned rows),
                         fn_reactivated = sum_list (map an_reactivated rows),
                         fn_conversionRate =
                           toPercent (of_int (sum_list (map an_completed rows)))
                             (of_int (sum_list (map an_started rows))) \<rparr>)))"

record scoringSummary =
  sc_gradedResponses :: int
  sc_avgScorePercent :: rat
  sc_totalCorrect :: int
  sc_totalIncorrect :: int

definition gradedCount :: "(submissionGrading \<Rightarrow> int) \<Rightarrow> surveyResponse \<Rightarrow> int" where
  "gradedCount sel response = (case r_grading response of None \<Rightarrow> 0 | Some g \<Rightarrow> sel g)"

text \<open>
  \<open>getSurveyScoringSummary\<close> takes \<open>gradedResponses\<close> and \<open>avgScorePercent\<close> from the summary rows
  and, "to keep compatibility with current scoring cards", \<open>totalCorrect\<close> and \<open>totalIncorrect\<close>
  from the gradings of the responses themselves.
\<close>

definition getSurveyScoringSummary ::
  "constants \<Rightarrow> caller \<Rightarrow> database \<Rightarrow> nat \<Rightarrow> dateInput \<Rightarrow> dateInput \<Rightarrow> error + scoringSummary" where
  "getSurveyScoringSummary consts c db surveyId fromDate toDate =
     (case requireSurveyWithAccess c db surveyId of
        Inl e \<Rightarrow> Inl e
      | Inr None \<Rightarrow>
          Inr \<lparr> sc_gradedResponses = 0, sc_avgScorePercent = 0, sc_totalCorrect = 0,
                sc_totalIncorrect = 0 \<rparr>
      | Inr (Some sv) \<Rightarrow>
          (case parseAnalyticsDateRange consts fromDate toDate
                  (Some (ANALYTICS_MAX_WINDOW_DAYS consts)) of
             Inl e \<Rightarrow> Inl e
           | Inr rng \<Rightarrow>
               (let rows = loadDailyAnalyticsRows db surveyId (dr_fromDate rng) (dr_toDate rng);
                    gradedResponses = sum_list (map an_totalGraded rows);
                    scoreWeightedSum =
                      sum_list (map (\<lambda>row. an_avgScorePercent row * of_int (an_totalGraded row))
                                  rows);
                    avgScorePercent =
                      (if gradedResponses > 0
                       then roundToTwo (scoreWeightedSum / of_int gradedResponses) else 0);
                    filtered =
                      filter (\<lambda>response. r_submittedAt response \<ge> dr_fromMillis rng
                                         \<and> r_submittedAt response \<le> dr_toMillis rng)
                        (filter (\<lambda>response. r_surveyId response = surveyId) (db_responses db))
                in Inr \<lparr> sc_gradedResponses = gradedResponses,
                         sc_avgScorePercent = avgScorePercent,
                         sc_totalCorrect = sum_list (map (gradedCount correctCount) filtered),
                         sc_totalIncorrect = sum_list (map (gradedCount incorrectCount) filtered)
                       \<rparr>)))"

record trendPoint =
  tp_dateKey :: dateKey
  tp_started :: int
  tp_completed :: int
  tp_idle :: int
  tp_abandoned :: int
  tp_conversionRate :: rat
  tp_avgScorePercent :: rat

definition rowsByDate :: "analyticsRow list \<Rightarrow> (dateKey \<times> analyticsRow) list" where
  "rowsByDate rows = mapFromEntries (map (\<lambda>row. (an_dateKey row, row)) rows)"

definition trendPointOf :: "(dateKey \<times> analyticsRow) list \<Rightarrow> dateKey \<Rightarrow> trendPoint" where
  "trendPointOf byDate day =
     (case map_of byDate day of
        None \<Rightarrow>
          \<lparr> tp_dateKey = day, tp_started = 0, tp_completed = 0, tp_idle = 0, tp_abandoned = 0,
            tp_conversionRate = toPercent 0 0, tp_avgScorePercent = 0 \<rparr>
      | Some row \<Rightarrow>
          \<lparr> tp_dateKey = day, tp_started = an_started row, tp_completed = an_completed row,
            tp_idle = an_idle row, tp_abandoned = an_abandoned row,
            tp_conversionRate = toPercent (of_int (an_completed row)) (of_int (an_started row)),
            tp_avgScorePercent = an_avgScorePercent row \<rparr>)"

definition getSurveyTrendSeries ::
  "constants \<Rightarrow> caller \<Rightarrow> database \<Rightarrow> nat \<Rightarrow> dateInput \<Rightarrow> dateInput \<Rightarrow> error + trendPoint list" where
  "getSurveyTrendSeries consts c db surveyId fromDate toDate =
     (case requireSurveyWithAccess c db surveyId of
        Inl e \<Rightarrow> Inl e
      | Inr None \<Rightarrow> Inr []
      | Inr (Some sv) \<Rightarrow>
          (case parseAnalyticsDateRange consts fromDate toDate
                  (Some (ANALYTICS_MAX_WINDOW_DAYS consts)) of
             Inl e \<Rightarrow> Inl e
           | Inr rng \<Rightarrow>
               (let rows = loadDailyAnalyticsRows db surveyId (dr_fromDate rng) (dr_toDate rng)
                in Inr (map (trendPointOf (rowsByDate rows)) (dr_dayKeys rng)))))"

subsection \<open>Field metadata and bucket normalisation\<close>

text \<open>
  What the queries need of the JavaScript engine and of luxon is a parameter: \<open>localeCompare\<close>,
  \<open>Number(string)\<close> and the ISO text of a day.  \<open>Array.prototype.sort\<close> is the stable sort by the
  comparator; \<open>sortBy\<close> takes the comparator as the relation "the first may stay before the
  second" (the comparator's value is not positive, \<open>NaN\<close> counting as zero), and agrees with
  every stable sort when that relation is a total preorder.
\<close>

record jsEngine =
  localeCompare :: "string \<Rightarrow> string \<Rightarrow> int"
  toNumber :: "string \<Rightarrow> jsnum"
  toISODate :: "dateKey \<Rightarrow> string"

fun insortBy :: "('a \<Rightarrow> 'a \<Rightarrow> bool) \<Rightarrow> 'a \<Rightarrow> 'a list \<Rightarrow> 'a list" where
  "insortBy le x [] = [x]"
| "insortBy le x (y # ys) = (if le x y then x # y # ys else y # insortBy le x ys)"

definition sortBy :: "('a \<Rightarrow> 'a \<Rightarrow> bool) \<Rightarrow> 'a list \<Rightarrow> 'a list" where
  "sortBy le xs = foldr (insortBy le) xs []"

fun indexOf :: "'a list \<Rightarrow> 'a \<Rightarrow> int" where
  "indexOf [] x = - 1"
| "indexOf (y # ys) x = (if x = y then 0 else if indexOf ys x < 0 then - 1 else indexOf ys x + 1)"

text \<open>A JavaScript \<open>Set\<close> built from a list keeps the first occurrence of each element.\<close>

definition jsSetOf :: "'a list \<Rightarrow> 'a list" where
  "jsSetOf xs = rev (remdups (rev xs))"

record fieldMeta =
  fm_label :: string
  fm_kind :: fieldKind
  fm_order :: int
  fm_optionOrder :: "string list"
  fm_optionLabels :: "(string \<times> string) list"

definition addFieldMeta :: "surveyField \<Rightarrow> (string \<times> fieldMeta) list \<Rightarrow> (string \<times> fieldMeta) list" where
  "addFieldMeta fld m =
     (if map_of m (f_id fld) \<noteq> None then m
      else mapSet (f_id fld)
             \<lparr> fm_label = f_label fld, fm_kind = f_kind fld, fm_order = f_order fld,
               fm_optionOrder = map fst (optionEntries fld),
               fm_optionLabels = mapFromEntries (optionEntries fld) \<rparr> m)"

text \<open>\<open>getSurveyFieldMetaMap\<close>: the versions of the survey, newest first; the first field of an id wins.\<close>

definition getSurveyFieldMetaMap :: "database \<Rightarrow> nat \<Rightarrow> (string \<times> fieldMeta) list" where
  "getSurveyFieldMetaMap db surveyId =
     (let versions = filter (\<lambda>version. sv_surveyId version = surveyId) (map snd (db_versions db));
          byVersion = sort_key (\<lambda>version. - sv_version version) versions
      in fold (\<lambda>version m. fold addFieldMeta (sv_fields version) m) byVersion [])"

record bucket =
  bk_key :: string
  bk_label :: string
  bk_count :: int

record bucketShare =
  bs_key :: string
  bs_label :: string
  bs_count :: int
  bs_percent :: rat

definition padNormalized :: "(string \<times> string) list \<Rightarrow> string \<Rightarrow> bucket list \<Rightarrow> bucket list" where
  "padNormalized labels v normalized =
     (if list_ex (\<lambda>b. bk_key b = v) normalized then normalized
      else normalized @ [\<lparr> bk_key = v, bk_label = labelOr labels v, bk_count = 0 \<rparr>])"

definition byNumericKey :: "jsEngine \<Rightarrow> bucket \<Rightarrow> bucket \<Rightarrow> bool" where
  "byNumericKey eng a b =
     (case js_sub (toNumber eng (bk_key a)) (toNumber eng (bk_key b)) of
        NaN \<Rightarrow> True
      | d \<Rightarrow> js_le d (Fin 0))"

definition byCountThenLabel :: "jsEngine \<Rightarrow> bucket \<Rightarrow> bucket \<Rightarrow> bool" where
  "byCountThenLabel eng a b =
     (if bk_count b - bk_count a \<noteq> 0 then bk_count b - bk_count a \<le> 0
      else localeCompare eng (bk_label a) (bk_label b) \<le> 0)"

definition normalizeBucketRows ::
  "jsEngine \<Rightarrow> fieldKind \<Rightarrow> string list \<Rightarrow> (string \<times> string) list \<Rightarrow> bucket list \<Rightarrow> bucket list" where
  "normalizeBucketRows eng kind optionOrder optionLabels buckets =
     (if kind = single_select \<or> kind = multi_select
      then sort_key (\<lambda>b. indexOf optionOrder (bk_key b))
             (fold (padNormalized optionLabels) optionOrder buckets)
      else if kind = rating_1_5
      then sortBy (byNumericKey eng)
             (fold (padNormalized []) [''1'', ''2'', ''3'', ''4'', ''5''] buckets)
      else
        let normalized = sortBy (byCountThenLabel eng) buckets
        in if length normalized > 20
           then
             let top = take 19 normalized;
                 otherCount = sum_list (map bk_count (drop 19 normalized))
             in if otherCount > 0
                then top @ [\<lparr> bk_key = ''__other__'', bk_label = ''Other'', bk_count = otherCount \<rparr>]
                else top
           else normalized)"

definition shareOf :: "int \<Rightarrow> bucket \<Rightarrow> bucketShare" where
  "shareOf totalAnswered b =
     \<lparr> bs_key = bk_key b, bs_label = bk_label b, bs_count = bk_count b,
       bs_percent = toPercent (of_int (bk_count b)) (of_int totalAnswered) \<rparr>"

subsection \<open>Answer breakdown\<close>

definition addAnswered :: "fieldRow \<Rightarrow> (string \<times> int) list \<Rightarrow> (string \<times> int) list" where
  "addAnswered row m =
     mapSet (fr_fieldId row)
       ((case map_of m (fr_fieldId row) of None \<Rightarrow> 0 | Some n \<Rightarrow> n) + fr_answeredCount row) m"

definition addBucketCount ::
  "bucketRow \<Rightarrow> (string \<times> (string \<times> int)) list \<Rightarrow> (string \<times> (string \<times> int)) list" where
  "addBucketCount row perField =
     mapSet (b_bucketKey row)
       (b_bucketLabel row,
        (case map_of perField (b_bucketKey row) of None \<Rightarrow> 0 | Some existing \<Rightarrow> snd existing)
          + b_count row)
       perField"

definition addBucketRow ::
  "bucketRow \<Rightarrow> (string \<times> (string \<times> (string \<times> int)) list) list
     \<Rightarrow> (string \<times> (string \<times> (string \<times> int)) list) list" where
  "addBucketRow row byField =
     mapSet (b_fieldId row)
       (addBucketCount row (case map_of byField (b_fieldId row) of None \<Rightarrow> [] | Some pf \<Rightarrow> pf))
       byField"

definition bucketsOf :: "(string \<times> (string \<times> int)) list \<Rightarrow> bucket list" where
  "bucketsOf perField =
     map (\<lambda>entry. \<lparr> bk_key = fst entry, bk_label = fst (snd entry),
                    bk_count = snd (snd entry) \<rparr>) perField"

record fieldBreakdown =
  fb_fieldId :: string
  fb_label :: string
  fb_kind :: fieldKind
  fb_order :: int
  fb_totalAnswered :: int
  fb_buckets :: "bucketShare list"

definition breakdownOfField ::
  "jsEngine \<Rightarrow> (string \<times> fieldMeta) list \<Rightarrow> (string \<times> int) list
     \<Rightarrow> (string \<times> (string \<times> (string \<times> int)) list) list \<Rightarrow> string \<Rightarrow> fieldBreakdown option" where
  "breakdownOfField eng fieldMetaMap answeredByField bucketMapByField fieldId =
     (case map_of fieldMetaMap fieldId of
        None \<Rightarrow> None
      | Some meta \<Rightarrow>
          (let totalAnswered = (case map_of answeredByField fieldId of None \<Rightarrow> 0 | Some n \<Rightarrow> n)
           in if totalAnswered \<le> 0 then None
              else
                let buckets = bucketsOf (case map_of bucketMapByField fieldId of
                                           None \<Rightarrow> [] | Some pf \<Rightarrow> pf);
                    normalized = normalizeBucketRows eng (fm_kind meta) (fm_optionOrder meta)
                                   (fm_optionLabels meta) buckets
                in Some \<lparr> fb_fieldId = fieldId, fb_label = fm_label meta, fb_kind = fm_kind meta,
                          fb_order = fm_order meta, fb_totalAnswered = totalAnswered,
                          fb_buckets = map (shareOf totalAnswered) normalized \<rparr>))"

definition buildAnswerBreakdownFromMaterialized ::
  "jsEngine \<Rightarrow> database \<Rightarrow> nat \<Rightarrow> dateKey \<Rightarrow> dateKey \<Rightarrow> fieldBreakdown list" where
  "buildAnswerBreakdownFromMaterialized eng db surveyId fromDate toDate =
     (let fieldMetaMap = getSurveyFieldMetaMap db surveyId;
          answeredByField = fold addAnswered (loadFieldRows db surveyId fromDate toDate) [];
          bucketMapByField = fold addBucketRow (loadBucketRows db surveyId fromDate toDate) [];
          fieldIds = jsSetOf (map fst answeredByField @ map fst bucketMapByField)
      in sort_key fb_order
           (List.map_filter
              (breakdownOfField eng fieldMetaMap answeredByField bucketMapByField) fieldIds))"

record answerBreakdown =
  ab_fieldId :: string
  ab_label :: string
  ab_kind :: fieldKind
  ab_totalAnswered :: int
  ab_buckets :: "bucketShare list"

definition withoutOrder :: "fieldBreakdown \<Rightarrow> answerBreakdown" where
  "withoutOrder row =
     \<lparr> ab_fieldId = fb_fieldId row, ab_label = fb_label row, ab_kind = fb_kind row,
       ab_totalAnswered = fb_totalAnswered row, ab_buckets = fb_buckets row \<rparr>"

definition getSurveyAnswerBreakdown ::
  "constants \<Rightarrow> jsEngine \<Rightarrow> caller \<Rightarrow> database \<Rightarrow> nat \<Rightarrow> dateInput \<Rightarrow> dateInput
     \<Rightarrow> error + answerBreakdown list" where
  "getSurveyAnswerBreakdown consts eng c db surveyId fromDate toDate =
     (case requireSurveyWithAccess c db surveyId of
        Inl e \<Rightarrow> Inl e
      | Inr None \<Rightarrow> Inr []
      | Inr (Some sv) \<Rightarrow>
          (case parseAnalyticsDateRange consts fromDate toDate
                  (Some (ANALYTICS_MAX_WINDOW_DAYS consts)) of
             Inl e \<Rightarrow> Inl e
           | Inr rng \<Rightarrow>
               Inr (map withoutOrder
                      (buildAnswerBreakdownFromMaterialized eng db surveyId
                         (dr_fromDate rng) (dr_toDate rng)))))"

subsection \<open>Field breakdown\<close>

record fieldBreakdownDetail =
  fd_fieldId :: string
  fd_label :: string
  fd_kind :: fieldKind
  fd_totalAnswered :: int
  fd_buckets :: "bucketShare list"
  fd_dailyTrend :: "(dateKey \<times> int) list"
  fd_topPhrases :: "(string \<times> int) list option"
  fd_sampledText :: "(string \<times> int) list option"

definition addCount :: "'k \<times> int \<Rightarrow> ('k \<times> int) list \<Rightarrow> ('k \<times> int) list" where
  "addCount entry m =
     mapSet (fst entry) ((case map_of m (fst entry) of None \<Rightarrow> 0 | Some n \<Rightarrow> n) + snd entry) m"

definition byCountThenText :: "jsEngine \<Rightarrow> string \<times> int \<Rightarrow> string \<times> int \<Rightarrow> bool" where
  "byCountThenText eng a b =
     (if snd b - snd a \<noteq> 0 then snd b - snd a \<le> 0
      else localeCompare eng (fst a) (fst b) \<le> 0)"

definition getSurveyFieldBreakdown ::
  "constants \<Rightarrow> jsEngine \<Rightarrow> caller \<Rightarrow> database \<Rightarrow> nat \<Rightarrow> dateInput \<Rightarrow> dateInput \<Rightarrow> string
     \<Rightarrow> int option \<Rightarrow> error + fieldBreakdownDetail" where
  "getSurveyFieldBreakdown consts eng c db surveyId fromDate toDate fieldId limit =
     (case requireSurveyWithAccess c db surveyId of
        Inl e \<Rightarrow> Inl e
      | Inr None \<Rightarrow> Inl NOT_FOUND
      | Inr (Some sv) \<Rightarrow>
          (case parseAnalyticsDateRange consts fromDate toDate
                  (Some (ANALYTICS_MAX_WINDOW_DAYS consts)) of
             Inl e \<Rightarrow> Inl e
           | Inr rng \<Rightarrow>
               (case map_of (getSurveyFieldMetaMap db surveyId) fieldId of
                  None \<Rightarrow> Inl FIELD_NOT_FOUND
                | Some meta \<Rightarrow>
                    (let bucketLimit =
                           max 1 (min (case limit of None \<Rightarrow> 20 | Some l \<Rightarrow> l)
                                    (ANALYTICS_MAX_BUCKETS consts));
                         fieldRows =
                           filter (\<lambda>row. fr_fieldId row = fieldId)
                             (loadFieldRows db surveyId (dr_fromDate rng) (dr_toDate rng));
                         answeredByDate =
                           fold addCount
                             (map (\<lambda>row. (fr_dateKey row, fr_answeredCount row)) fieldRows) [];
                         totalAnswered = sum_list (map fr_answeredCount fieldRows);
                         bucketRows =
                           filter (\<lambda>row. b_fieldId row = fieldId)
                             (loadBucketRows db surveyId (dr_fromDate rng) (dr_toDate rng));
                         normalizedBuckets =
                           take (nat bucketLimit)
                             (normalizeBucketRows eng (fm_kind meta) (fm_optionOrder meta)
                                (fm_optionLabels meta)
                                (bucketsOf (fold addBucketCount bucketRows [])));
                         dailyTrend =
                           map (\<lambda>day. (day, (case map_of answeredByDate day of
                                                 None \<Rightarrow> 0 | Some n \<Rightarrow> n)))
                             (dr_dayKeys rng);
                         textRows = loadTextRows db surveyId fieldId (dr_fromDate rng)
                                      (dr_toDate rng);
                         phraseCounts = fold addCount (concat (map t_topPhrases textRows)) [];
                         snippetCounts = fold addCount (concat (map t_sampledSnippets textRows)) []
                     in Inr \<lparr> fd_fieldId = fieldId, fd_label = fm_label meta,
                              fd_kind = fm_kind meta, fd_totalAnswered = totalAnswered,
                              fd_buckets = map (shareOf totalAnswered) normalizedBuckets,
                              fd_dailyTrend = dailyTrend,
                              fd_topPhrases =
                                (if fm_kind meta \<noteq> short_text \<and> fm_kind meta \<noteq> long_text
                                 then None
                                 else Some (take (ANALYTICS_MAX_TOP_PHRASES consts)
                                              (sortBy (byCountThenText eng) phraseCounts))),
                              fd_sampledText =
                                (if fm_kind meta \<noteq> short_text \<and> fm_kind meta \<noteq> long_text
                                 then None
                                 else Some (take 10 (sortBy (byCountThenText eng) snippetCounts)))
                            \<rparr>))))"

subsection \<open>Drop-off by step\<close>

record dropoffStep =
  ds_fieldId :: string
  ds_label :: string
  ds_order :: int
  ds_reachedCount :: int
  ds_answeredCount :: int
  ds_dropoffCount :: int
  ds_dropoffRate :: rat

definition addDropoff ::
  "fieldRow \<Rightarrow> (string \<times> int \<times> int \<times> int) list \<Rightarrow> (string \<times> int \<times> int \<times> int) list" where
  "addDropoff row m =
     (case (case map_of m (fr_fieldId row) of None \<Rightarrow> (0, 0, 0) | Some existing \<Rightarrow> existing) of
        (reached, answered, dropoff) \<Rightarrow>
          mapSet (fr_fieldId row)
            (reached + fr_reachedCount row, answered + fr_answeredCount row,
             dropoff + fr_dropoffCount row) m)"

definition dropoffStepOf ::
  "(string \<times> fieldMeta) list \<Rightarrow> string \<times> int \<times> int \<times> int \<Rightarrow> dropoffStep option" where
  "dropoffStepOf fieldMetaMap entry =
     (case map_of fieldMetaMap (fst entry) of
        None \<Rightarrow> None
      | Some meta \<Rightarrow>
          (case snd entry of
             (reached, answered, dropoff) \<Rightarrow>
               Some \<lparr> ds_fieldId = fst entry, ds_label = fm_label meta, ds_order = fm_order meta,
                      ds_reachedCount = reached, ds_answeredCount = answered,
                      ds_dropoffCount = dropoff,
                      ds_dropoffRate = toPercent (of_int dropoff) (of_int reached) \<rparr>))"

text \<open>
  The rows returned carry no \<open>order\<close>; it stays in the record here and is not looked at by any
  property.
\<close>

definition getSurveyDropoffByStep ::
  "constants \<Rightarrow> caller \<Rightarrow> database \<Rightarrow> nat \<Rightarrow> dateInput \<Rightarrow> dateInput \<Rightarrow> error + dropoffStep list" where
  "getSurveyDropoffByStep consts c db surveyId fromDate toDate =
     (case requireSurveyWithAccess c db surveyId of
        Inl e \<Rightarrow> Inl e
      | Inr None \<Rightarrow> Inr []
      | Inr (Some sv) \<Rightarrow>
          (case parseAnalyticsDateRange consts fromDate toDate
                  (Some (ANALYTICS_MAX_WINDOW_DAYS consts)) of
             Inl e \<Rightarrow> Inl e
           | Inr rng \<Rightarrow>
               (let fieldMetaMap = getSurveyFieldMetaMap db surveyId;
                    rows = loadFieldRows db surveyId (dr_fromDate rng) (dr_toDate rng);
                    aggregate = fold addDropoff rows []
                in Inr (sort_key ds_order
                          (List.map_filter (dropoffStepOf fieldMetaMap) aggregate)))))"

subsection \<open>CSV export\<close>

datatype csvReport = funnel_report | scoring_report | answer_breakdown_report

record csvExport =
  csv_filename :: "string \<times> nat \<times> dateKey \<times> dateKey"
  csv_headers :: "string list"
  csv_rows :: "string list list"

definition enforceCsvRowLimit :: "constants \<Rightarrow> nat \<Rightarrow> error + unit" where
  "enforceCsvRowLimit consts rowCount =
     (if int rowCount > ANALYTICS_MAX_CSV_ROWS consts then Inl ANALYTICS_EXPORT_TOO_LARGE
      else Inr ())"

fun kindName :: "fieldKind \<Rightarrow> string" where
  "kindName short_text = ''short_text''"
| "kindName long_text = ''long_text''"
| "kindName single_select = ''single_select''"
| "kindName multi_select = ''multi_select''"
| "kindName number = ''number''"
| "kindName email = ''email''"
| "kindName date = ''date''"
| "kindName rating_1_5 = ''rating_1_5''"

definition funnelCsvRow :: "jsEngine \<Rightarrow> (dateKey \<times> analyticsRow) list \<Rightarrow> dateKey \<Rightarrow> string list" where
  "funnelCsvRow eng trendByDate day =
     (case map_of trendByDate day of
        None \<Rightarrow>
          [toISODate eng day, intToString 0, intToString 0, intToString 0, intToString 0,
           intToString 0, toFixed2 (toPercent 0 0), toFixed2 0]
      | Some row \<Rightarrow>
          [toISODate eng day, intToString (an_started row), intToString (an_completed row),
           intToString (an_idle row), intToString (an_abandoned row),
           intToString (an_reactivated row),
           toFixed2 (toPercent (of_int (an_completed row)) (of_int (an_started row))),
           toFixed2 (an_avgScorePercent row)])"

definition scoringCsvRow :: "jsEngine \<Rightarrow> (dateKey \<times> analyticsRow) list \<Rightarrow> dateKey \<Rightarrow> string list" where
  "scoringCsvRow eng trendByDate day =
     (case map_of trendByDate day of
        None \<Rightarrow> [toISODate eng day, intToString 0, toFixed2 0]
      | Some row \<Rightarrow>
          [toISODate eng day, intToString (an_totalGraded row), toFixed2 (an_avgScorePercent row)])"

definition breakdownCsvRows :: "fieldBreakdown \<Rightarrow> string list list" where
  "breakdownCsvRows fld =
     map (\<lambda>b. [fb_fieldId fld, fb_label fld, kindName (fb_kind fld),
                intToString (fb_totalAnswered fld), bs_key b, bs_label b,
                intToString (bs_count b), toFixed2 (bs_percent b)])
       (fb_buckets fld)"

definition limitedCsv ::
  "constants \<Rightarrow> string \<times> nat \<times> dateKey \<times> dateKey \<Rightarrow> string list \<Rightarrow> string list list
     \<Rightarrow> error + csvExport" where
  "limitedCsv consts filename headers rows =
     (case enforceCsvRowLimit consts (length rows) of
        Inl e \<Rightarrow> Inl e
      | Inr _ \<Rightarrow> Inr \<lparr> csv_filename = filename, csv_headers = headers, csv_rows = rows \<rparr>)"

definition getSurveyCsvExport ::
  "constants \<Rightarrow> jsEngine \<Rightarrow> caller \<Rightarrow> database \<Rightarrow> nat \<Rightarrow> dateInput \<Rightarrow> dateInput \<Rightarrow> csvReport
     \<Rightarrow> error + csvExport" where
  "getSurveyCsvExport consts eng c db surveyId fromDate toDate report =
     (case requireSurveyWithAccess c db surveyId of
        Inl e \<Rightarrow> Inl e
      | Inr None \<Rightarrow> Inl NOT_FOUND
      | Inr (Some sv) \<Rightarrow>
          (case parseAnalyticsDateRange consts fromDate toDate
                  (Some (ANALYTICS_MAX_WINDOW_DAYS consts)) of
             Inl e \<Rightarrow> Inl e
           | Inr rng \<Rightarrow>
               (case report of
                  funnel_report \<Rightarrow>
                    limitedCsv consts (''funnel'', surveyId, dr_fromDate rng, dr_toDate rng)
                      [''dateKey'', ''started'', ''completed'', ''idle'', ''abandoned'',
                       ''reactivated'', ''conversionRate'', ''avgScorePercent'']
                      (map (funnelCsvRow eng
                              (rowsByDate (loadDailyAnalyticsRows db surveyId (dr_fromDate rng)
                                             (dr_toDate rng))))
                         (dr_dayKeys rng))
                | scoring_report \<Rightarrow>
                    limitedCsv consts (''scoring'', surveyId, dr_fromDate rng, dr_toDate rng)
                      [''dateKey'', ''totalGraded'', ''avgScorePercent'']
                      (map (scoringCsvRow eng
                              (rowsByDate (loadDailyAnalyticsRows db surveyId (dr_fromDate rng)
                                             (dr_toDate rng))))
                         (dr_dayKeys rng))
                | answer_breakdown_report \<Rightarrow>
                    limitedCsv consts
                      (''answer_breakdown'', surveyId, dr_fromDate rng, dr_toDate rng)
                      [''fieldId'', ''label'', ''kind'', ''totalAnswered'', ''bucketKey'',
                       ''bucketLabel'', ''bucketCount'', ''bucketPercent'']
                      (concat (map breakdownCsvRows
                                 (buildAnswerBreakdownFromMaterialized eng db surveyId
                                    (dr_fromDate rng) (dr_toDate rng)))))))"

subsection \<open>The seven read queries as one call\<close>

datatype queryCall =
  GetSurveyFunnel
| GetSurveyScoringSummary
| GetSurveyTrendSeries
| GetSurveyAnswerBreakdown
| GetSurveyFieldBreakdown string "int option"
| GetSurveyDropoffByStep
| GetSurveyCsvExport csvReport

datatype queryResult =
  FunnelResult funnel
| ScoringResult scoringSummary
| TrendResult "trendPoint list"
| AnswerBreakdownResult "answerBreakdown list"
| FieldBreakdownResult fieldBreakdownDetail
| DropoffResult "dropoffStep list"
| CsvResult csvExport

definition runQuery ::
  "constants \<Rightarrow> jsEngine \<Rightarrow> caller \<Rightarrow> database \<Rightarrow> nat \<Rightarrow> dateInput \<Rightarrow> dateInput \<Rightarrow> queryCall
     \<Rightarrow> error + queryResult" where
  "runQuery consts eng c db surveyId fromDate toDate call =
     (case call of
        GetSurveyFunnel \<Rightarrow>
          map_sum id FunnelResult (getSurveyFunnel consts c db surveyId fromDate toDate)
      | GetSurveyScoringSummary \<Rightarrow>
          map_sum id ScoringResult (getSurveyScoringSummary consts c db surveyId fromDate toDate)
      | GetSurveyTrendSeries \<Rightarrow>
          map_sum id TrendResult (getSurveyTrendSeries consts c db surveyId fromDate toDate)
      | GetSurveyAnswerBreakdown \<Rightarrow>
          map_sum id AnswerBreakdownResult
            (getSurveyAnswerBreakdown consts eng c db surveyId fromDate toDate)
      | GetSurveyFieldBreakdown fieldId limit \<Rightarrow>
          map_sum id FieldBreakdownResult
            (getSurveyFieldBreakdown consts eng c db surveyId fromDate toDate fieldId limit)
      | GetSurveyDropoffByStep \<Rightarrow>
          map_sum id DropoffResult (getSurveyDropoffByStep consts c db surveyId fromDate toDate)
      | GetSurveyCsvExport report \<Rightarrow>
          map_sum id CsvResult
            (getSurveyCsvExport consts eng c db surveyId fromDate toDate report))"

section \<open>Properties of the analytics read queries\<close>

subsection \<open>Example data\<close>

definition exampleConstants :: constants where
  "exampleConstants =
     \<lparr> ANALYTICS_MAX_WINDOW_DAYS = 90, ANALYTICS_MAX_CSV_ROWS = 5000,
       ANALYTICS_MAX_BUCKETS = 50, ANALYTICS_MAX_TOP_PHRASES = 20 \<rparr>"

definition exampleAdmin :: caller where
  "exampleAdmin = SignedIn \<lparr> u_id = 9, u_role = admin, u_workosUserId = ''user_9'' \<rparr>"

definition exampleEngine :: jsEngine where
  "exampleEngine =
     \<lparr> localeCompare = (\<lambda>a b. if a = b then 0 else 1), toNumber = (\<lambda>s. NaN),
       toISODate = (\<lambda>day. intToString day) \<rparr>"

definition gradedResponse :: surveyResponse where
  "gradedResponse =
     (exampleResponse [''q0'' \<mapsto> AString ''Ann''])
       \<lparr> r_grading := Some \<lparr> gradableCount = 1, correctCount = 1, incorrectCount = 0,
                              scorePercent = 100, fieldResults = [''q0'' \<mapsto> True] \<rparr> \<rparr>"

text \<open>
  A database whose summary table holds one row for survey 1 on day 0, and whose responses are
  the given ones.
\<close>

definition rollupDatabase :: "surveyResponse list \<Rightarrow> database" where
  "rollupDatabase responses =
     exampleDatabase
       \<lparr> db_responses := responses,
         db_analyticsDaily :=
           [(0, \<lparr> an_surveyId = 1, an_dateKey = 0, an_started = 4, an_completed = 2,
                  an_idle = 1, an_abandoned = 1, an_reactivated = 0, an_avgScorePercent = 50,
                  an_totalGraded = 2, an_updatedAt = 2000 \<rparr>)] \<rparr>"

subsection \<open>The date range\<close>

lemma buildDateKeysLoop_upto: "buildDateKeysLoop cursor lastDay keys = keys @ [cursor..lastDay]"
proof (induction cursor lastDay keys rule: buildDateKeysLoop.induct)
  case (1 cursor lastDay keys)
  show ?case
  proof (cases "cursor \<le> lastDay")
    case True
    then have "[cursor..lastDay] = cursor # [cursor + 1..lastDay]" by (rule upto_rec1)
    with True 1 show ?thesis by (subst buildDateKeysLoop.simps) simp
  next
    case False
    then show ?thesis by (subst buildDateKeysLoop.simps) simp
  qed
qed

lemma parseAnalyticsDateRange_days:
  "parseAnalyticsDateRange consts (Some f) (Some t) (Some m) =
     (if t < f then Inl INVALID_DATE_RANGE
      else if t - f + 1 > m then Inl ANALYTICS_WINDOW_TOO_LARGE
      else Inr \<lparr> dr_fromDate = f, dr_toDate = t, dr_fromMillis = startOfDay f,
                 dr_toMillis = endOfDay t, dr_dayKeys = [f..t] \<rparr>)"
  by (auto simp: parseAnalyticsDateRange_def buildDateKeys_def normalizeDateKey_def
        buildDateKeysLoop_upto Let_def)

lemma parse_too_large:
  "f \<le> t \<Longrightarrow> t - f + 1 > m \<Longrightarrow>
     parseAnalyticsDateRange consts (Some f) (Some t) (Some m) = Inl ANALYTICS_WINDOW_TOO_LARGE"
  by (simp add: parseAnalyticsDateRange_days)

lemma parse_within:
  "t - f + 1 \<le> m \<Longrightarrow>
     parseAnalyticsDateRange consts (Some f) (Some t) (Some m) \<noteq> Inl ANALYTICS_WINDOW_TOO_LARGE"
  by (simp add: parseAnalyticsDateRange_days)

subsection \<open>What the queries read\<close>

text \<open>
  Two databases agree on the rollups when they hold the same surveys, survey versions and rows
  of the four rollup tables; their responses, and the counters of \<open>surveyMetricsDaily\<close>, may differ.
\<close>

definition rollupsAgree :: "database \<Rightarrow> database \<Rightarrow> bool" where
  "rollupsAgree db db' =
     (db_surveys db' = db_surveys db \<and> db_versions db' = db_versions db
      \<and> db_analyticsDaily db' = db_analyticsDaily db \<and> db_fieldDaily db' = db_fieldDaily db
      \<and> db_bucketsDaily db' = db_bucketsDaily db \<and> db_textDaily db' = db_textDaily db)"

lemma agree_reads:
  assumes "rollupsAgree db db'"
  shows "requireSurveyWithAccess c db' sid = requireSurveyWithAccess c db sid"
    and "loadDailyAnalyticsRows db' sid f t = loadDailyAnalyticsRows db sid f t"
    and "loadFieldRows db' sid f t = loadFieldRows db sid f t"
    and "loadBucketRows db' sid f t = loadBucketRows db sid f t"
    and "loadTextRows db' sid fid f t = loadTextRows db sid fid f t"
    and "getSurveyFieldMetaMap db' sid = getSurveyFieldMetaMap db sid"
proof -
  from assms have e: "db_surveys db' = db_surveys db" "db_versions db' = db_versions db"
    "db_analyticsDaily db' = db_analyticsDaily db" "db_fieldDaily db' = db_fieldDaily db"
    "db_bucketsDaily db' = db_bucketsDaily db" "db_textDaily db' = db_textDaily db"
    by (simp_all add: rollupsAgree_def)
  show "requireSurveyWithAccess c db' sid = requireSurveyWithAccess c db sid"
    unfolding requireSurveyWithAccess_def e ..
  show "loadDailyAnalyticsRows db' sid f t = loadDailyAnalyticsRows db sid f t"
    unfolding loadDailyAnalyticsRows_def e ..
  show "loadFieldRows db' sid f t = loadFieldRows db sid f t"
    unfolding loadFieldRows_def e ..
  show "loadBucketRows db' sid f t = loadBucketRows db sid f t"
    unfolding loadBucketRows_def e ..
  show "loadTextRows db' sid fid f t = loadTextRows db sid fid f t"
    unfolding loadTextRows_def e ..
  show "getSurveyFieldMetaMap db' sid = getSurveyFieldMetaMap db sid"
    unfolding getSurveyFieldMetaMap_def e ..
qed

lemma agree_breakdown:
  assumes "rollupsAgree db db'"
  shows "buildAnswerBreakdownFromMaterialized eng db' sid f t
           = buildAnswerBreakdownFromMaterialized eng db sid f t"
  unfolding buildAnswerBreakdownFromMaterialized_def agree_reads [OF assms] ..

text \<open>
  Claim C5, as the code has it. Over two databases that agree on the rollups, six of the seven
  read queries return the same result whatever the stored responses are, and so do the fields
  \<open>gradedResponses\<close> and \<open>avgScorePercent\<close> of \<open>getSurveyScoringSummary\<close>. The fields
  \<open>totalCorrect\<close> and \<open>totalIncorrect\<close> of \<open>getSurveyScoringSummary\<close> are summed over the
  \<open>surveyResponses\<close> rows of the range and are not covered.
\<close>

theorem queries_read_rollups_only:
  assumes "rollupsAgree db db'"
  shows "(call \<noteq> GetSurveyScoringSummary \<longrightarrow>
            runQuery consts eng c db' surveyId fromDate toDate call
              = runQuery consts eng c db surveyId fromDate toDate call)
    \<and> map_sum id (\<lambda>s. (sc_gradedResponses s, sc_avgScorePercent s))
         (getSurveyScoringSummary consts c db' surveyId fromDate toDate)
       = map_sum id (\<lambda>s. (sc_gradedResponses s, sc_avgScorePercent s))
           (getSurveyScoringSummary consts c db surveyId fromDate toDate)"
proof -
  note r = agree_reads [OF assms] agree_breakdown [OF assms]
  have 1: "getSurveyFunnel consts c db' surveyId fromDate toDate
             = getSurveyFunnel consts c db surveyId fromDate toDate"
    unfolding getSurveyFunnel_def r ..
  have 2: "getSurveyTrendSeries consts c db' surveyId fromDate toDate
             = getSurveyTrendSeries consts c db surveyId fromDate toDate"
    unfolding getSurveyTrendSeries_def r ..
  have 3: "getSurveyAnswerBreakdown consts eng c db' surveyId fromDate toDate
             = getSurveyAnswerBreakdown consts eng c db surveyId fromDate toDate"
    unfolding getSurveyAnswerBreakdown_def r ..
  have 4: "\<And>fieldId limit. getSurveyFieldBreakdown consts eng c db' surveyId fromDate toDate fieldId limit
             = getSurveyFieldBreakdown consts eng c db surveyId fromDate toDate fieldId limit"
    unfolding getSurveyFieldBreakdown_def r ..
  have 5: "getSurveyDropoffByStep consts c db' surveyId fromDate toDate
             = getSurveyDropoffByStep consts c db surveyId fromDate toDate"
    unfolding getSurveyDropoffByStep_def r ..
  have 6: "\<And>report. getSurveyCsvExport consts eng c db' surveyId fromDate toDate report
             = getSurveyCsvExport consts eng c db surveyId fromDate toDate report"
    unfolding getSurveyCsvExport_def r ..
  have 7: "map_sum id (\<lambda>s. (sc_gradedResponses s, sc_avgScorePercent s))
         (getSurveyScoringSummary consts c db' surveyId fromDate toDate)
       = map_sum id (\<lambda>s. (sc_gradedResponses s, sc_avgScorePercent s))
           (getSurveyScoringSummary consts c db surveyId fromDate toDate)"
    unfolding getSurveyScoringSummary_def r
    by (simp add: Let_def split: sum.splits option.splits)
  have "call \<noteq> GetSurveyScoringSummary \<longrightarrow>
            runQuery consts eng c db' surveyId fromDate toDate call
              = runQuery consts eng c db surveyId fromDate toDate call"
    by (cases call) (simp_all add: runQuery_def 1 2 3 4 5 6)
  with 7 show ?thesis by blast
qed

theorem queries_read_rollups_only_witness:
  "rollupsAgree (rollupDatabase []) (rollupDatabase [gradedResponse])
   \<and> GetSurveyFunnel \<noteq> GetSurveyScoringSummary
   \<and> (\<forall>eng. runQuery exampleConstants eng exampleAdmin (rollupDatabase [gradedResponse]) 1
                 (Some 0) (Some 0) GetSurveyFunnel
             = runQuery exampleConstants eng exampleAdmin (rollupDatabase []) 1
                 (Some 0) (Some 0) GetSurveyFunnel)
   \<and> map_sum id (\<lambda>s. (sc_gradedResponses s, sc_avgScorePercent s))
         (getSurveyScoringSummary exampleConstants exampleAdmin (rollupDatabase [gradedResponse]) 1
            (Some 0) (Some 0))
       = map_sum id (\<lambda>s. (sc_gradedResponses s, sc_avgScorePercent s))
           (getSurveyScoringSummary exampleConstants exampleAdmin (rollupDatabase []) 1
              (Some 0) (Some 0))"
proof -
  have a: "rollupsAgree (rollupDatabase []) (rollupDatabase [gradedResponse])"
    by (simp add: rollupsAgree_def rollupDatabase_def)
  show ?thesis
    using a queries_read_rollups_only [OF a, of GetSurveyFunnel exampleConstants _ exampleAdmin 1 "Some 0" "Some 0"]
    by simp
qed

lemma round_of_5000: "\<lfloor>(10001 :: rat) / 2\<rfloor> = 5000"
  by (rule floor_unique) simp_all

text \<open>
  Claim C5 as stated fails for \<open>getSurveyScoringSummary\<close>: the two databases below hold the same
  rollup rows and metadata, the second holds one more graded response, and the query returns
  \<open>totalCorrect = 0\<close> over the first and \<open>totalCorrect = 1\<close> over the second.
\<close>

theorem scoring_summary_reads_responses_counterexample:
  "rollupsAgree (rollupDatabase []) (rollupDatabase [gradedResponse])
   \<and> (runQuery exampleConstants exampleEngine exampleAdmin (rollupDatabase []) 1
                 (Some 0) (Some 0) GetSurveyScoringSummary
             = Inr (ScoringResult \<lparr> sc_gradedResponses = 2, sc_avgScorePercent = 50,
                                     sc_totalCorrect = 0, sc_totalIncorrect = 0 \<rparr>))
   \<and> (runQuery exampleConstants exampleEngine exampleAdmin (rollupDatabase [gradedResponse]) 1
                 (Some 0) (Some 0) GetSurveyScoringSummary
             = Inr (ScoringResult \<lparr> sc_gradedResponses = 2, sc_avgScorePercent = 50,
                                     sc_totalCorrect = 1, sc_totalIncorrect = 0 \<rparr>))"
  by (simp add: rollupsAgree_def rollupDatabase_def gradedResponse_def exampleResponse_def
        exampleDatabase_def exampleConstants_def exampleAdmin_def runQuery_def
        getSurveyScoringSummary_def requireSurveyWithAccess_def requireAppUser_def
        assertSurveyOwnerOrAdmin_def parseAnalyticsDateRange_days loadDailyAnalyticsRows_def
        startOfDay_def endOfDay_def msPerDay_def gradedCount_def roundToTwo_def js_round_def
        round_of_5000 Let_def)

subsection \<open>The window bound\<close>

lemma runQuery_too_large_iff:
  assumes "requireSurveyWithAccess c db surveyId = Inr (Some sv)"
  shows "(runQuery consts eng c db surveyId fromDate toDate call = Inl ANALYTICS_WINDOW_TOO_LARGE)
       = (parseAnalyticsDateRange consts fromDate toDate (Some (ANALYTICS_MAX_WINDOW_DAYS consts))
            = Inl ANALYTICS_WINDOW_TOO_LARGE)"
proof (cases call)
  case GetSurveyFunnel
  then show ?thesis
    by (simp add: runQuery_def getSurveyFunnel_def assms Let_def split: sum.splits)
next
  case GetSurveyScoringSummary
  then show ?thesis
    by (simp add: runQuery_def getSurveyScoringSummary_def assms Let_def split: sum.splits)
next
  case GetSurveyTrendSeries
  then show ?thesis
    by (simp add: runQuery_def getSurveyTrendSeries_def assms Let_def split: sum.splits)
next
  case GetSurveyAnswerBreakdown
  then show ?thesis
    by (simp add: runQuery_def getSurveyAnswerBreakdown_def assms split: sum.splits)
next
  case (GetSurveyFieldBreakdown fieldId limit)
  then show ?thesis
    by (simp add: runQuery_def getSurveyFieldBreakdown_def assms Let_def
          split: sum.splits option.splits)
next
  case GetSurveyDropoffByStep
  then show ?thesis
    by (simp add: runQuery_def getSurveyDropoffByStep_def assms Let_def split: sum.splits)
next
  case (GetSurveyCsvExport report)
  then show ?thesis
    by (simp add: runQuery_def getSurveyCsvExport_def assms limitedCsv_def
          enforceCsvRowLimit_def split: sum.splits csvReport.splits)
qed

text \<open>
  Every query checks the caller's access to the survey before it parses the date range: a
  call that does not pass the check on an existing survey is answered without the range being
  read, and never with \<open>ANALYTICS_WINDOW_TOO_LARGE\<close>.
\<close>

lemma requireSurveyWithAccess_errors:
  "requireSurveyWithAccess c db surveyId = Inl e \<Longrightarrow> e = UNAUTHORIZED \<or> e = FORBIDDEN"
  by (auto simp: requireSurveyWithAccess_def requireAppUser_def assertSurveyOwnerOrAdmin_def
        split: caller.splits option.splits if_splits)

lemma runQuery_access_first:
  assumes "\<forall>sv. requireSurveyWithAccess c db surveyId \<noteq> Inr (Some sv)"
  shows "runQuery consts eng c db surveyId fromDate toDate call \<noteq> Inl ANALYTICS_WINDOW_TOO_LARGE
       \<and> runQuery consts eng c db surveyId fromDate toDate call
           = runQuery consts eng c db surveyId fromDate' toDate' call"
proof (cases "requireSurveyWithAccess c db surveyId")
  case (Inl e)
  from requireSurveyWithAccess_errors [OF Inl] have "e \<noteq> ANALYTICS_WINDOW_TOO_LARGE" by auto
  with Inl show ?thesis
    by (cases call)
       (simp_all add: runQuery_def getSurveyFunnel_def getSurveyScoringSummary_def
          getSurveyTrendSeries_def getSurveyAnswerBreakdown_def getSurveyFieldBreakdown_def
          getSurveyDropoffByStep_def getSurveyCsvExport_def)
next
  case (Inr found)
  with assms have "found = None" by (cases found) auto
  with Inr show ?thesis
    by (cases call)
       (simp_all add: runQuery_def getSurveyFunnel_def getSurveyScoringSummary_def
          getSurveyTrendSeries_def getSurveyAnswerBreakdown_def getSurveyFieldBreakdown_def
          getSurveyDropoffByStep_def getSurveyCsvExport_def)
qed

text \<open>
  Claim C7, as the code has it.  For a caller who passes the access check on an existing
  survey, a range \<open>[f, t]\<close> of valid dates with \<open>f \<le> t\<close> that spans more than
  \<open>ANALYTICS_MAX_WINDOW_DAYS\<close> days makes each of the seven queries fail with
  \<open>ANALYTICS_WINDOW_TOO_LARGE\<close>; and a range of at most that many days never does, whoever the
  caller is.
\<close>

theorem window_too_large_rejected:
  "(requireSurveyWithAccess c db surveyId = Inr (Some sv)
      \<and> f \<le> t \<and> t - f + 1 > ANALYTICS_MAX_WINDOW_DAYS consts \<longrightarrow>
        runQuery consts eng c db surveyId (Some f) (Some t) call = Inl ANALYTICS_WINDOW_TOO_LARGE)
   \<and> (t - f + 1 \<le> ANALYTICS_MAX_WINDOW_DAYS consts \<longrightarrow>
        runQuery consts eng c db surveyId (Some f) (Some t) call \<noteq> Inl ANALYTICS_WINDOW_TOO_LARGE)"
proof (intro conjI impI)
  assume a: "requireSurveyWithAccess c db surveyId = Inr (Some sv)
      \<and> f \<le> t \<and> t - f + 1 > ANALYTICS_MAX_WINDOW_DAYS consts"
  then have "requireSurveyWithAccess c db surveyId = Inr (Some sv)" by simp
  from runQuery_too_large_iff [OF this] a parse_too_large
  show "runQuery consts eng c db surveyId (Some f) (Some t) call = Inl ANALYTICS_WINDOW_TOO_LARGE"
    by blast
next
  assume w: "t - f + 1 \<le> ANALYTICS_MAX_WINDOW_DAYS consts"
  show "runQuery consts eng c db surveyId (Some f) (Some t) call \<noteq> Inl ANALYTICS_WINDOW_TOO_LARGE"
  proof (cases "\<exists>sv. requireSurveyWithAccess c db surveyId = Inr (Some sv)")
    case True
    then obtain sv' where "requireSurveyWithAccess c db surveyId = Inr (Some sv')" by blast
    from runQuery_too_large_iff [OF this] parse_within [OF w] show ?thesis by blast
  next
    case False
    then have "\<forall>sv. requireSurveyWithAccess c db surveyId \<noteq> Inr (Some sv)" by blast
    from runQuery_access_first [OF this] show ?thesis by blast
  qed
qed

theorem window_too_large_rejected_witness:
  "requireSurveyWithAccess exampleAdmin exampleDatabase 1 = Inr (Some \<lparr> sy_createdByUserId = 5 \<rparr>)
   \<and> (0::int) \<le> 90 \<and> 90 - 0 + 1 > ANALYTICS_MAX_WINDOW_DAYS exampleConstants
   \<and> (\<forall>eng call. runQuery exampleConstants eng exampleAdmin exampleDatabase 1 (Some 0) (Some 90) call
                    = Inl ANALYTICS_WINDOW_TOO_LARGE)
   \<and> 89 - 0 + 1 \<le> ANALYTICS_MAX_WINDOW_DAYS exampleConstants
   \<and> (\<forall>eng call. runQuery exampleConstants eng exampleAdmin exampleDatabase 1 (Some 0) (Some 89) call
                    \<noteq> Inl ANALYTICS_WINDOW_TOO_LARGE)"
proof -
  have a: "requireSurveyWithAccess exampleAdmin exampleDatabase 1
             = Inr (Some \<lparr> sy_createdByUserId = 5 \<rparr>)"
    by (simp add: requireSurveyWithAccess_def requireAppUser_def assertSurveyOwnerOrAdmin_def
          exampleAdmin_def exampleDatabase_def)
  have b: "ANALYTICS_MAX_WINDOW_DAYS exampleConstants = 90"
    by (simp add: exampleConstants_def)
  show ?thesis
    using a b
      window_too_large_rejected [of exampleAdmin exampleDatabase 1 "\<lparr> sy_createdByUserId = 5 \<rparr>"
                                   0 90 exampleConstants]
      window_too_large_rejected [of exampleAdmin exampleDatabase 1 "\<lparr> sy_createdByUserId = 5 \<rparr>"
                                   0 89 exampleConstants]
    by simp
qed

text \<open>
  Claim C7 as stated fails for a call that does not pass the access check on an existing
  survey. Survey 2 does not exist: over a range of 91 days, with a bound of 90,
  \<open>getSurveyFunnel\<close> returns its empty result and raises nothing; and a caller with no identity
  gets \<open>UNAUTHORIZED\<close>, not \<open>ANALYTICS_WINDOW_TOO_LARGE\<close>.
\<close>

theorem window_not_checked_without_survey_counterexample:
  "90 - 0 + 1 > ANALYTICS_MAX_WINDOW_DAYS exampleConstants
   \<and> (runQuery exampleConstants exampleEngine exampleAdmin exampleDatabase 2 (Some 0) (Some 90)
                 GetSurveyFunnel
             = Inr (FunnelResult \<lparr> fn_started = 0, fn_completed = 0, fn_idle = 0,
                                    fn_abandoned = 0, fn_reactivated = 0,
                                    fn_conversionRate = 0 \<rparr>))
   \<and> (runQuery exampleConstants exampleEngine NoIdentity exampleDatabase 1 (Some 0) (Some 90)
                 GetSurveyFunnel
             = Inl UNAUTHORIZED)"
  by (simp add: exampleConstants_def exampleAdmin_def exampleDatabase_def runQuery_def
        getSurveyFunnel_def requireSurveyWithAccess_def requireAppUser_def)

section \<open>Invites and sessions\<close>

text \<open>The functions of \<open>invites.ts\<close>, \<open>sessions.ts\<close> and \<open>sessions_internal.ts\<close>.\<close>

text \<open>
  Convex runs a mutation as a transaction: when the handler throws, none of its writes is kept.
  A mutation is a function from the store to the error thrown, or to the store after its
  writes together with the value returned.  A write that is followed by a throw on every path
  (the invite patched to \<open>expired\<close> or \<open>exhausted\<close> just before \<open>INVITE_EXPIRED\<close>,
  \<open>INVITE_EXHAUSTED\<close> or \<open>INVITE_UNAVAILABLE\<close>) is therefore not kept, and does not appear below.

  \<open>Date.now()\<close>, the hash of the invite token, \<open>crypto.randomUUID()\<close> and the new invite token are
  arguments.  \<open>completionCount\<close> starts at 0 and is only ever incremented, an integer;
  \<open>maxCompletions\<close> is the number the caller of \<open>createInvite\<close> sent, a rational here (\<open>NaN\<close> and
  the infinities are left out).  The limit of a sweep is a whole number.  Of the values returned,
  the progress report of \<open>startOrResumeSession\<close> and \<open>saveAnswer\<close> is left out, and so are the
  properties of the analytics events and the metadata of the audit log.
\<close>

datatype sessionStatus = in_progress | idle | abandoned | completed

datatype inviteStatus = active | revoked | exhausted | expired

record invite =
  i_surveyId :: nat
  i_surveyVersionId :: nat
  i_tokenHash :: string
  i_status :: inviteStatus
  i_maxCompletions :: rat
  i_completionCount :: int
  i_expiresAt :: "int option"
  i_createdByUserId :: nat
  i_createdAt :: int
  i_revokedAt :: "int option"

record session =
  s_sessionPublicId :: string
  s_surveyId :: nat
  s_surveyVersionId :: nat
  s_inviteId :: nat
  s_respondentKey :: string
  s_status :: sessionStatus
  s_startedAt :: int
  s_lastActivityAt :: int
  s_completedAt :: "int option"
  s_answersDraft :: "(string \<times> answerValue) list"

record transition =
  tr_sessionId :: nat
  tr_surveyId :: nat
  tr_fromStatus :: "sessionStatus option"
  tr_toStatus :: sessionStatus
  tr_reason :: string
  tr_at :: int

record auditLog =
  al_entityType :: string
  al_entityId :: nat
  al_action :: string
  al_actorType :: string

datatype metric = Started | Completed | Idle | Abandoned | Reactivated

record store =
  st_surveys :: "nat \<rightharpoonup> survey"
  st_versions :: "surveyVersion table"
  st_invites :: "invite table"
  st_sessions :: "session table"
  st_responses :: "surveyResponse table"
  st_transitions :: "transition list"
  st_metricsDaily :: "metricsRow table"
  st_analyticsDaily :: "analyticsRow table"
  st_outbox :: "outboxRow list"
  st_auditLogs :: "auditLog list"
  st_nextId :: nat

record sessionConstants =
  DEFAULT_INVITE_TTL_MS :: int
  IDLE_THRESHOLD_MS :: int
  ABANDONED_THRESHOLD_MS :: int

definition andThen :: "error + 'a \<Rightarrow> ('a \<Rightarrow> error + 'b) \<Rightarrow> error + 'b" where
  "andThen r f = (case r of Inl e \<Rightarrow> Inl e | Inr x \<Rightarrow> f x)"

subsection \<open>lib/domain.ts\<close>

definition writeTransition ::
  "store \<Rightarrow> nat \<Rightarrow> nat \<Rightarrow> sessionStatus option \<Rightarrow> sessionStatus \<Rightarrow> string \<Rightarrow> int \<Rightarrow> store" where
  "writeTransition st sessionId surveyId fromStatus toStatus reason atMs =
     st \<lparr> st_transitions := st_transitions st @
            [\<lparr> tr_sessionId = sessionId, tr_surveyId = surveyId, tr_fromStatus = fromStatus,
               tr_toStatus = toStatus, tr_reason = reason, tr_at = atMs \<rparr>] \<rparr>"

definition enqueueEvent :: "store \<Rightarrow> int \<Rightarrow> string \<Rightarrow> string \<Rightarrow> store" where
  "enqueueEvent st now eventName distinctId =
     st \<lparr> st_outbox := st_outbox st @ [enqueueAnalyticsEvent now eventName distinctId] \<rparr>"

definition writeAuditLog :: "store \<Rightarrow> string \<Rightarrow> nat \<Rightarrow> string \<Rightarrow> string \<Rightarrow> store" where
  "writeAuditLog st entityType entityId action actorType =
     st \<lparr> st_auditLogs := st_auditLogs st @
            [\<lparr> al_entityType = entityType, al_entityId = entityId, al_action = action,
               al_actorType = actorType \<rparr>] \<rparr>"

fun metricOfRow :: "metric \<Rightarrow> metricsRow \<Rightarrow> int" where
  "metricOfRow Started row = m_started row"
| "metricOfRow Completed row = m_completed row"
| "metricOfRow Idle row = m_idle row"
| "metricOfRow Abandoned row = m_abandoned row"
| "metricOfRow Reactivated row = m_reactivated row"

fun setMetricOfRow :: "metric \<Rightarrow> int \<Rightarrow> metricsRow \<Rightarrow> metricsRow" where
  "setMetricOfRow Started n row = row \<lparr> m_started := n \<rparr>"
| "setMetricOfRow Completed n row = row \<lparr> m_completed := n \<rparr>"
| "setMetricOfRow Idle n row = row \<lparr> m_idle := n \<rparr>"
| "setMetricOfRow Abandoned n row = row \<lparr> m_abandoned := n \<rparr>"
| "setMetricOfRow Reactivated n row = row \<lparr> m_reactivated := n \<rparr>"

fun metricOfAnalytics :: "metric \<Rightarrow> analyticsRow \<Rightarrow> int" where
  "metricOfAnalytics Started row = an_started row"
| "metricOfAnalytics Completed row = an_completed row"
| "metricOfAnalytics Idle row = an_idle row"
| "metricOfAnalytics Abandoned row = an_abandoned row"
| "metricOfAnalytics Reactivated row = an_reactivated row"

fun setMetricOfAnalytics :: "metric \<Rightarrow> int \<Rightarrow> analyticsRow \<Rightarrow> analyticsRow" where
  "setMetricOfAnalytics Started n row = row \<lparr> an_started := n \<rparr>"
| "setMetricOfAnalytics Completed n row = row \<lparr> an_completed := n \<rparr>"
| "setMetricOfAnalytics Idle n row = row \<lparr> an_idle := n \<rparr>"
| "setMetricOfAnalytics Abandoned n row = row \<lparr> an_abandoned := n \<rparr>"
| "setMetricOfAnalytics Reactivated n row = row \<lparr> an_reactivated := n \<rparr>"

text \<open>
  \<open>bumpDailyMetric\<close> with \<open>delta = 1\<close>, as every caller has it: the day's row of
  \<open>surveyMetricsDaily\<close>, then the day's row of \<open>surveyAnalyticsDaily\<close>, each inserted when it is
  missing.  \<open>unique()\<close> throws when the index holds two rows for the key.
\<close>

definition bumpMetricsRow :: "store \<Rightarrow> nat \<Rightarrow> metric \<Rightarrow> int \<Rightarrow> error + store" where
  "bumpMetricsRow st surveyId m timestamp =
     (let dateKey = dateKeyFromTimestamp timestamp in
      andThen (uniqueRow (filter (\<lambda>doc. m_surveyId (snd doc) = surveyId \<and> m_dateKey (snd doc) = dateKey)
                            (st_metricsDaily st)))
        (\<lambda>existing.
           let base = (case existing of
                         Some doc \<Rightarrow> snd doc
                       | None \<Rightarrow> \<lparr> m_surveyId = surveyId, m_dateKey = dateKey, m_started = 0,
                                   m_completed = 0, m_idle = 0, m_abandoned = 0,
                                   m_reactivated = 0, m_updatedAt = timestamp \<rparr>);
               nextValue = metricOfRow m base + 1;
               patch = (setMetricOfRow m (max nextValue 0) base) \<lparr> m_updatedAt := timestamp \<rparr>
           in Inr (case existing of
                     None \<Rightarrow> st \<lparr> st_metricsDaily := st_metricsDaily st @ [(st_nextId st, patch)],
                                 st_nextId := st_nextId st + 1 \<rparr>
                   | Some doc \<Rightarrow>
                       st \<lparr> st_metricsDaily := tblPatch (fst doc) patch (st_metricsDaily st) \<rparr>)))"

definition bumpAnalyticsRow :: "store \<Rightarrow> nat \<Rightarrow> metric \<Rightarrow> int \<Rightarrow> error + store" where
  "bumpAnalyticsRow st surveyId m timestamp =
     (let dateKey = dateKeyFromTimestamp timestamp in
      andThen (uniqueRow (filter (\<lambda>doc. an_surveyId (snd doc) = surveyId
                                       \<and> an_dateKey (snd doc) = dateKey)
                            (st_analyticsDaily st)))
        (\<lambda>analyticsExisting.
           let analyticsBase = (case analyticsExisting of
                         Some doc \<Rightarrow> snd doc
                       | None \<Rightarrow> \<lparr> an_surveyId = surveyId, an_dateKey = dateKey, an_started = 0,
                                   an_completed = 0, an_idle = 0, an_abandoned = 0,
                                   an_reactivated = 0, an_avgScorePercent = 0,
                                   an_totalGraded = 0, an_updatedAt = timestamp \<rparr>);
               analyticsNextValue = metricOfAnalytics m analyticsBase + 1;
               analyticsPatch = (setMetricOfAnalytics m (max analyticsNextValue 0) analyticsBase)
                                  \<lparr> an_updatedAt := timestamp \<rparr>
           in Inr (case analyticsExisting of
                     None \<Rightarrow>
                       st \<lparr> st_analyticsDaily := st_analyticsDaily st @ [(st_nextId st, analyticsPatch)],
                            st_nextId := st_nextId st + 1 \<rparr>
                   | Some doc \<Rightarrow>
                       st \<lparr> st_analyticsDaily :=
                              tblPatch (fst doc) analyticsPatch (st_analyticsDaily st) \<rparr>)))"

definition bumpDailyMetric :: "store \<Rightarrow> nat \<Rightarrow> metric \<Rightarrow> int \<Rightarrow> error + store" where
  "bumpDailyMetric st surveyId m timestamp =
     andThen (bumpMetricsRow st surveyId m timestamp)
       (\<lambda>st1. bumpAnalyticsRow st1 surveyId m timestamp)"

subsection \<open>lib/utils.ts\<close>

definition getInviteByToken :: "store \<Rightarrow> string \<Rightarrow> error + (nat \<times> invite) option" where
  "getInviteByToken st tokenHash =
     uniqueRow (filter (\<lambda>doc. i_tokenHash (snd doc) = tokenHash) (st_invites st))"

definition isInviteUsable :: "invite \<Rightarrow> int \<Rightarrow> bool" where
  "isInviteUsable invite now =
     (if i_status invite \<noteq> active then False
      else if (case i_expiresAt invite of None \<Rightarrow> False | Some expiresAt \<Rightarrow> expiresAt < now) then False
      else if of_int (i_completionCount invite) \<ge> i_maxCompletions invite then False
      else True)"

definition getFieldMap :: "surveyVersion \<Rightarrow> (string \<times> surveyField) list" where
  "getFieldMap version = mapFromEntries (map (\<lambda>fld. (f_id fld, fld)) (sv_fields version))"

definition sessionByPublicId :: "store \<Rightarrow> string \<Rightarrow> error + (nat \<times> session) option" where
  "sessionByPublicId st sessionPublicId =
     uniqueRow (filter (\<lambda>doc. s_sessionPublicId (snd doc) = sessionPublicId) (st_sessions st))"

text \<open>
  \<open>answerMapSchema.parse\<close>: every value of the map is a string, a number that \<open>z.number()\<close> accepts,
  a boolean, an array of strings or \<open>null\<close>.
\<close>

definition parseAnswerMapWithZod ::
  "validationEnv \<Rightarrow> (string \<times> answerValue) list \<Rightarrow> error + unit" where
  "parseAnswerMapWithZod env answersDraft =
     (if list_all (\<lambda>entry. case snd entry of
                              ANumber n \<Rightarrow> zNumber env (Some (ANumber n)) \<noteq> None
                            | AInherited \<Rightarrow> False
                            | _ \<Rightarrow> True) answersDraft
      then Inr () else Inl ZOD_ERROR)"

subsection \<open>invites.ts\<close>

definition createInvite ::
  "sessionConstants \<Rightarrow> caller \<Rightarrow> store \<Rightarrow> nat \<Rightarrow> nat \<Rightarrow> int option \<Rightarrow> rat option \<Rightarrow> string \<Rightarrow> int
     \<Rightarrow> error + store \<times> nat" where
  "createInvite consts c st surveyId surveyVersionId expiresAtArg maxCompletionsArg tokenHash now =
     andThen (requireAppUser c)
       (\<lambda>user.
          case st_surveys st surveyId of
            None \<Rightarrow> Inl NOT_FOUND
          | Some sv \<Rightarrow>
              andThen (assertSurveyOwnerOrAdmin user sv)
                (\<lambda>_. case map_of (st_versions st) surveyVersionId of
                        None \<Rightarrow> Inl NOT_FOUND
                      | Some version \<Rightarrow>
                          if sv_surveyId version \<noteq> surveyId then Inl NOT_FOUND
                          else
                            let maxCompletions =
                                  max 1 (case maxCompletionsArg of None \<Rightarrow> 1 | Some m \<Rightarrow> m);
                                expiresAt =
                                  (case expiresAtArg of
                                     None \<Rightarrow> now + DEFAULT_INVITE_TTL_MS consts
                                   | Some e \<Rightarrow> e);
                                inviteId = st_nextId st;
                                st1 = st \<lparr> st_invites := st_invites st @
                                             [(inviteId,
                                               \<lparr> i_surveyId = surveyId,
                                                 i_surveyVersionId = surveyVersionId,
                                                 i_tokenHash = tokenHash, i_status = active,
                                                 i_maxCompletions = maxCompletions,
                                                 i_completionCount = 0,
                                                 i_expiresAt = Some expiresAt,
                                                 i_createdByUserId = u_id user,
                                                 i_createdAt = now, i_revokedAt = None \<rparr>)],
                                           st_nextId := inviteId + 1 \<rparr>;
                                st2 = writeAuditLog st1 ''surveyInvite'' inviteId
                                        ''survey_invite_created'' ''admin'';
                                st3 = enqueueEvent st2 now ''survey_invite_created''
                                        (u_workosUserId user)
                            in Inr (st3, inviteId)))"

subsection \<open>sessions.ts\<close>

definition inviteExpired :: "invite \<Rightarrow> int \<Rightarrow> bool" where
  "inviteExpired invite now =
     (i_status invite = active
      \<and> (case i_expiresAt invite of None \<Rightarrow> False | Some expiresAt \<Rightarrow> expiresAt < now))"

text \<open>
  The session \<open>startOrResumeSession\<close> resumes: the prior session when it is given, belongs to
  the invite and the respondent and is not completed; else the first session of the invite
  that belongs to the respondent and is not completed.
\<close>

definition findCandidate ::
  "store \<Rightarrow> nat \<Rightarrow> string \<Rightarrow> string option \<Rightarrow> error + (nat \<times> session) option" where
  "findCandidate st inviteId respondentKey priorSessionId =
     andThen
       (case priorSessionId of
          None \<Rightarrow> Inr None
        | Some priorId \<Rightarrow>
            if priorId = [] then Inr None
            else andThen (sessionByPublicId st priorId)
                   (\<lambda>prior. Inr (case prior of
                                   None \<Rightarrow> None
                                 | Some doc \<Rightarrow>
                                     if s_inviteId (snd doc) = inviteId
                                        \<and> s_respondentKey (snd doc) = respondentKey
                                        \<and> s_status (snd doc) \<noteq> completed
                                     then Some doc else None)))
       (\<lambda>candidate.
          case candidate of
            Some doc \<Rightarrow> Inr (Some doc)
          | None \<Rightarrow>
              Inr (find (\<lambda>doc. s_respondentKey (snd doc) = respondentKey
                              \<and> s_status (snd doc) \<noteq> completed)
                     (filter (\<lambda>doc. s_inviteId (snd doc) = inviteId) (st_sessions st))))"

definition resumeSession ::
  "store \<Rightarrow> int \<Rightarrow> nat \<times> session \<Rightarrow> error + store \<times> string \<times> sessionStatus" where
  "resumeSession st now doc =
     (let candidate = snd doc;
          fromStatus = s_status candidate;
          toStatus = (if fromStatus = idle \<or> fromStatus = abandoned then in_progress
                      else fromStatus);
          st1 = st \<lparr> st_sessions :=
                       tblPatch (fst doc)
                         (candidate \<lparr> s_status := toStatus, s_lastActivityAt := now \<rparr>)
                         (st_sessions st) \<rparr>
      in andThen
           (if fromStatus \<noteq> toStatus
            then bumpDailyMetric
                   (writeTransition st1 (fst doc) (s_surveyId candidate) (Some fromStatus) toStatus
                      ''resumed'' now)
                   (s_surveyId candidate) Reactivated now
            else Inr st1)
           (\<lambda>st2. Inr (enqueueEvent st2 now
                          (if fromStatus = in_progress then ''survey_session_resumed''
                           else ''survey_session_reactivated'')
                          (s_sessionPublicId candidate),
                        s_sessionPublicId candidate, toStatus)))"

definition startSession ::
  "store \<Rightarrow> int \<Rightarrow> nat \<Rightarrow> invite \<Rightarrow> string \<Rightarrow> string \<Rightarrow> error + store \<times> string \<times> sessionStatus" where
  "startSession st now inviteId invite respondentKey sessionPublicId =
     (let sessionId = st_nextId st;
          st1 = st \<lparr> st_sessions := st_sessions st @
                       [(sessionId,
                         \<lparr> s_sessionPublicId = sessionPublicId, s_surveyId = i_surveyId invite,
                           s_surveyVersionId = i_surveyVersionId invite, s_inviteId = inviteId,
                           s_respondentKey = respondentKey, s_status = in_progress,
                           s_startedAt = now, s_lastActivityAt = now, s_completedAt = None,
                           s_answersDraft = [] \<rparr>)],
                     st_nextId := sessionId + 1 \<rparr>;
          st2 = writeTransition st1 sessionId (i_surveyId invite) None in_progress ''started'' now
      in andThen (bumpDailyMetric st2 (i_surveyId invite) Started now)
           (\<lambda>st3. Inr (writeAuditLog
                          (enqueueEvent st3 now ''survey_session_started'' sessionPublicId)
                          ''surveySession'' sessionId ''survey_session_started'' ''respondent'',
                        sessionPublicId, in_progress)))"

definition startOrResumeSession ::
  "store \<Rightarrow> string \<Rightarrow> string \<Rightarrow> string option \<Rightarrow> int \<Rightarrow> string
     \<Rightarrow> error + store \<times> string \<times> sessionStatus" where
  "startOrResumeSession st tokenHash respondentKey priorSessionId now sessionPublicId =
     (if length respondentKey < 12 \<or> length respondentKey > 256 then Inl INVALID_RESPONDENT_KEY
      else
        andThen (getInviteByToken st tokenHash)
          (\<lambda>found.
             case found of
               None \<Rightarrow> Inl INVALID_INVITE
             | Some inviteDoc \<Rightarrow>
                 if inviteExpired (snd inviteDoc) now then Inl INVITE_EXPIRED
                 else if \<not> isInviteUsable (snd inviteDoc) now then Inl INVITE_UNAVAILABLE
                 else
                   (case map_of (st_versions st) (i_surveyVersionId (snd inviteDoc)) of
                      None \<Rightarrow> Inl INVALID_INVITE
                    | Some version \<Rightarrow>
                        andThen (findCandidate st (fst inviteDoc) respondentKey priorSessionId)
                          (\<lambda>candidate.
                             case candidate of
                               Some doc \<Rightarrow> resumeSession st now doc
                             | None \<Rightarrow>
                                 startSession st now (fst inviteDoc) (snd inviteDoc)
                                   respondentKey sessionPublicId))))"

definition saveAnswer ::
  "validationEnv \<Rightarrow> store \<Rightarrow> string \<Rightarrow> string \<Rightarrow> answerValue \<Rightarrow> int
     \<Rightarrow> error + store \<times> sessionStatus" where
  "saveAnswer env st sessionPublicId fieldId newValue now =
     andThen (sessionByPublicId st sessionPublicId)
       (\<lambda>found.
          case found of
            None \<Rightarrow> Inl NOT_FOUND
          | Some doc \<Rightarrow>
              let session = snd doc in
              if s_status session = completed then Inl SESSION_COMPLETED
              else
                (case map_of (st_versions st) (s_surveyVersionId session) of
                   None \<Rightarrow> Inl NOT_FOUND
                 | Some version \<Rightarrow>
                     (case map_of (getFieldMap version) fieldId of
                        None \<Rightarrow> Inl INVALID_FIELD
                      | Some fld \<Rightarrow>
                          andThen (validateAnswerForField env fld (Some newValue))
                            (\<lambda>_. let nextAnswers = mapSet fieldId newValue (s_answersDraft session)
                                 in andThen (parseAnswerMapWithZod env nextAnswers)
                                      (\<lambda>_. let reactivate = (s_status session = idle
                                                             \<or> s_status session = abandoned);
                                               nextStatus = (if reactivate then in_progress
                                                             else s_status session)
                                           in andThen
                                                (if reactivate
                                                 then bumpDailyMetric
                                                        (writeTransition st (fst doc)
                                                           (s_surveyId session)
                                                           (Some (s_status session)) in_progress
                                                           ''answer_saved_reactivated'' now)
                                                        (s_surveyId session) Reactivated now
                                                 else Inr st)
                                                (\<lambda>st1.
                                                   Inr (enqueueEvent
                                                          (st1 \<lparr> st_sessions :=
                                                                   tblPatch (fst doc)
                                                                     (session
                                                                        \<lparr> s_status := nextStatus,
                                                                          s_lastActivityAt := now,
                                                                          s_answersDraft := nextAnswers \<rparr>)
                                                                     (st_sessions st1) \<rparr>)
                                                          now ''survey_answer_saved''
                                                          (s_sessionPublicId session),
                                                        nextStatus)))))))"

text \<open>The loop of \<open>submitSession\<close> over the version's fields: the first field that fails throws.\<close>

fun checkFields ::
  "validationEnv \<Rightarrow> surveyField list \<Rightarrow> (string \<times> answerValue) list \<Rightarrow> error + unit" where
  "checkFields env [] answersDraft = Inr ()"
| "checkFields env (fld # rest) answersDraft =
     andThen (validateAnswerForField env fld (propertyOf (map_of answersDraft) (f_id fld)))
       (\<lambda>_. if f_required fld \<and> \<not> isAnswerPresent (propertyOf (map_of answersDraft) (f_id fld))
            then Inl MISSING_REQUIRED_FIELD
            else checkFields env rest answersDraft)"

text \<open>The writes of \<open>submitSession\<close>, once the session, the invite and the answers have passed.\<close>

definition completeSubmission ::
  "store \<Rightarrow> int \<Rightarrow> nat \<times> session \<Rightarrow> invite \<Rightarrow> surveyVersion \<Rightarrow> error + store \<times> nat" where
  "completeSubmission st now doc invite version =
     (let session = snd doc;
          grading = gradeSubmission (sv_fields version) (map_of (s_answersDraft session));
          responseId = st_nextId st;
          st1 = st \<lparr> st_responses := st_responses st @
                       [(responseId,
                         \<lparr> r_surveyId = s_surveyId session,
                           r_surveyVersionId = s_surveyVersionId session, r_submittedAt = now,
                           r_answers = map_of (s_answersDraft session),
                           r_grading = Some grading \<rparr>)],
                     st_nextId := responseId + 1 \<rparr>;
          st2 = st1 \<lparr> st_sessions :=
                        tblPatch (fst doc)
                          (session \<lparr> s_status := completed, s_lastActivityAt := now,
                                     s_completedAt := Some now \<rparr>)
                          (st_sessions st1) \<rparr>;
          st3 = writeTransition st2 (fst doc) (s_surveyId session) (Some (s_status session))
                  completed ''submitted'' now
      in andThen (bumpDailyMetric st3 (s_surveyId session) Completed now)
           (\<lambda>st4.
              let nextCompletionCount = i_completionCount invite + 1;
                  inviteNowExhausted = (of_int nextCompletionCount \<ge> i_maxCompletions invite);
                  st5 = st4 \<lparr> st_invites :=
                                tblPatch (s_inviteId session)
                                  (invite \<lparr> i_status := (if inviteNowExhausted then exhausted
                                                          else i_status invite),
                                            i_completionCount := nextCompletionCount \<rparr>)
                                  (st_invites st4) \<rparr>;
                  st6 = (if inviteNowExhausted
                         then enqueueEvent st5 now ''survey_invite_exhausted''
                                (s_sessionPublicId session)
                         else st5);
                  st7 = enqueueEvent st6 now ''survey_submitted'' (s_sessionPublicId session);
                  st8 = enqueueEvent st7 now ''survey_submission_graded''
                          (s_sessionPublicId session)
              in Inr (writeAuditLog st8 ''surveyResponse'' responseId ''survey_submitted''
                        ''respondent'',
                      responseId)))"

definition submitSession ::
  "validationEnv \<Rightarrow> store \<Rightarrow> string \<Rightarrow> int \<Rightarrow> error + store \<times> nat" where
  "submitSession env st sessionPublicId now =
     andThen (sessionByPublicId st sessionPublicId)
       (\<lambda>found.
          case found of
            None \<Rightarrow> Inl NOT_FOUND
          | Some doc \<Rightarrow>
              if s_status (snd doc) = completed then Inl SESSION_COMPLETED
              else
                (case map_of (st_invites st) (s_inviteId (snd doc)) of
                   None \<Rightarrow> Inl NOT_FOUND
                 | Some invite \<Rightarrow>
                     if inviteExpired invite now then Inl INVITE_EXPIRED
                     else if of_int (i_completionCount invite) \<ge> i_maxCompletions invite
                     then Inl INVITE_EXHAUSTED
                     else if i_status invite \<noteq> active then Inl INVITE_UNAVAILABLE
                     else
                       (case map_of (st_versions st) (s_surveyVersionId (snd doc)) of
                          None \<Rightarrow> Inl NOT_FOUND
                        | Some version \<Rightarrow>
                            andThen (parseAnswerMapWithZod env (s_answersDraft (snd doc)))
                              (\<lambda>_. andThen (checkFields env (sv_fields version)
                                              (s_answersDraft (snd doc)))
                                     (\<lambda>_. completeSubmission st now doc invite version)))))"

subsection \<open>\<open>sessions_internal.ts\<close>\<close>

definition transitionSession ::
  "store \<Rightarrow> nat \<Rightarrow> sessionStatus \<Rightarrow> string \<Rightarrow> int \<Rightarrow> error + store \<times> bool" where
  "transitionSession st sessionId toStatus reason atMs =
     (case map_of (st_sessions st) sessionId of
        None \<Rightarrow> Inr (st, False)
      | Some session \<Rightarrow>
          if s_status session = toStatus then Inr (st, False)
          else
            let fromStatus = s_status session;
                st1 = st \<lparr> st_sessions :=
                             tblPatch sessionId
                               (session \<lparr> s_status := toStatus, s_lastActivityAt := atMs,
                                          s_completedAt := (if toStatus = completed then Some atMs
                                                            else s_completedAt session) \<rparr>)
                               (st_sessions st) \<rparr>;
                st2 = writeTransition st1 sessionId (s_surveyId session) (Some fromStatus)
                        toStatus reason atMs
            in andThen (if toStatus = idle
                        then bumpDailyMetric st2 (s_surveyId session) Idle atMs else Inr st2)
                 (\<lambda>st3.
                    andThen (if toStatus = abandoned
                             then bumpDailyMetric st3 (s_surveyId session) Abandoned atMs
                             else Inr st3)
                      (\<lambda>st4.
                         andThen (if toStatus = in_progress
                                     \<and> (fromStatus = idle \<or> fromStatus = abandoned)
                                  then bumpDailyMetric st4 (s_surveyId session) Reactivated atMs
                                  else Inr st4)
                           (\<lambda>st5.
                              andThen (if toStatus = completed
                                       then bumpDailyMetric st5 (s_surveyId session) Completed atMs
                                       else Inr st5)
                                (\<lambda>st6.
                                   Inr (enqueueEvent st6 atMs
                                          (if toStatus = idle then ''survey_session_idle''
                                           else if toStatus = abandoned
                                           then ''survey_session_abandoned''
                                           else if toStatus = in_progress
                                           then ''survey_session_reactivated''
                                           else ''survey_submitted'')
                                          (s_sessionPublicId session),
                                        True))))))"

definition transitionState ::
  "store \<Rightarrow> nat \<Rightarrow> sessionStatus \<Rightarrow> string \<Rightarrow> int \<Rightarrow> error + store \<times> bool" where
  "transitionState st sessionId toStatus reason now =
     transitionSession st sessionId toStatus reason now"

text \<open>
  The \<open>for\<close> loop of the two sweeps: \<open>transitionSession\<close> on each session in turn, counting the
  transitions made.
\<close>

fun transitionEach ::
  "store \<Rightarrow> nat list \<Rightarrow> sessionStatus \<Rightarrow> string \<Rightarrow> int \<Rightarrow> nat \<Rightarrow> error + store \<times> nat" where
  "transitionEach st [] toStatus reason now processed = Inr (st, processed)"
| "transitionEach st (sessionId # rest) toStatus reason now processed =
     andThen (transitionSession st sessionId toStatus reason now)
       (\<lambda>r. transitionEach (fst r) rest toStatus reason now
               (if snd r then processed + 1 else processed))"

definition batchLimit :: "int option \<Rightarrow> nat" where
  "batchLimit limitArg = nat (max 1 (min (case limitArg of None \<Rightarrow> 200 | Some l \<Rightarrow> l) 1000))"

text \<open>
  The index \<open>by_status_and_last_activity\<close>: the sessions of a status whose last activity is
  before the cutoff, by last activity and, for equal times, in the order of creation.
\<close>

definition staleSessions :: "store \<Rightarrow> sessionStatus \<Rightarrow> int \<Rightarrow> (nat \<times> session) list" where
  "staleSessions st status cutoff =
     sort_key (\<lambda>doc. s_lastActivityAt (snd doc))
       (filter (\<lambda>doc. s_status (snd doc) = status \<and> s_lastActivityAt (snd doc) < cutoff)
          (st_sessions st))"

definition markIdleBatch ::
  "sessionConstants \<Rightarrow> store \<Rightarrow> int option \<Rightarrow> int \<Rightarrow> error + store \<times> nat" where
  "markIdleBatch consts st limitArg now =
     (let cutoff = now - IDLE_THRESHOLD_MS consts;
          limit = batchLimit limitArg;
          sessions = take limit (staleSessions st in_progress cutoff)
      in transitionEach st (map fst sessions) idle ''idle_timeout'' now 0)"

definition markAbandonedBatch ::
  "sessionConstants \<Rightarrow> store \<Rightarrow> int option \<Rightarrow> int \<Rightarrow> error + store \<times> nat" where
  "markAbandonedBatch consts st limitArg now =
     (let cutoff = now - ABANDONED_THRESHOLD_MS consts;
          limit = batchLimit limitArg;
          idleSessions = take limit (staleSessions st idle cutoff);
          remaining = limit - length idleSessions;
          inProgressSessions =
            (if remaining > 0 then take remaining (staleSessions st in_progress cutoff) else [])
      in transitionEach st (map fst (idleSessions @ inProgressSessions)) abandoned
           ''abandoned_timeout'' now 0)"

subsection \<open>The operations on the store\<close>

text \<open>
  The mutations that write a session or the count of an invite.  \<open>revokeInvite\<close> writes the
  status of an invite only, and the seeding of development data inserts new sessions and
  invites; neither changes the status of a stored session.
\<close>

datatype operation =
  CreateInvite caller nat nat "int option" "rat option" string
| StartOrResumeSession string string "string option" string
| SaveAnswer string string answerValue
| SubmitSession string
| TransitionState nat sessionStatus string
| MarkIdleBatch "int option"
| MarkAbandonedBatch "int option"

text \<open>An operation run at a time \<open>now\<close>: the store after it, when it does not throw.\<close>

definition perform ::
  "sessionConstants \<Rightarrow> validationEnv \<Rightarrow> int \<Rightarrow> operation \<Rightarrow> store \<Rightarrow> error + store" where
  "perform consts env now op st =
     (case op of
        CreateInvite c surveyId surveyVersionId expiresAt maxCompletions tokenHash \<Rightarrow>
          map_sum id fst
            (createInvite consts c st surveyId surveyVersionId expiresAt maxCompletions tokenHash now)
      | StartOrResumeSession tokenHash respondentKey priorSessionId sessionPublicId \<Rightarrow>
          map_sum id fst
            (startOrResumeSession st tokenHash respondentKey priorSessionId now sessionPublicId)
      | SaveAnswer sessionPublicId fieldId newValue \<Rightarrow>
          map_sum id fst (saveAnswer env st sessionPublicId fieldId newValue now)
      | SubmitSession sessionPublicId \<Rightarrow>
          map_sum id fst (submitSession env st sessionPublicId now)
      | TransitionState sessionId toStatus reason \<Rightarrow>
          map_sum id fst (transitionState st sessionId toStatus reason now)
      | MarkIdleBatch limitArg \<Rightarrow> map_sum id fst (markIdleBatch consts st limitArg now)
      | MarkAbandonedBatch limitArg \<Rightarrow> map_sum id fst (markAbandonedBatch consts st limitArg now))"

section \<open>Properties of invites and sessions\<close>

text \<open>
  The session a store holds under an id, as \<open>ctx.db.get\<close> returns it, and its status.
\<close>

definition sessionOf :: "store \<Rightarrow> nat \<Rightarrow> session option" where
  "sessionOf st sessionId = map_of (st_sessions st) sessionId"

definition statusOf :: "store \<Rightarrow> nat \<Rightarrow> sessionStatus option" where
  "statusOf st sessionId = map_option s_status (sessionOf st sessionId)"

definition statusAfter :: "error + store \<Rightarrow> nat \<Rightarrow> error + sessionStatus option" where
  "statusAfter r sessionId = map_sum id (\<lambda>st. statusOf st sessionId) r"

text \<open>
  \<open>movedTo origins toStatus st st'\<close>: every session of \<open>st'\<close> is the session \<open>st\<close> holds under the
  same id, or it had a status among \<open>origins\<close> in \<open>st\<close> and has the status \<open>toStatus\<close> in \<open>st'\<close>.
\<close>

definition movedTo :: "sessionStatus set \<Rightarrow> sessionStatus \<Rightarrow> store \<Rightarrow> store \<Rightarrow> bool" where
  "movedTo origins toStatus st st' =
     (\<forall>sessionId.
        sessionOf st' sessionId = sessionOf st sessionId
        \<or> (\<exists>s s'. sessionOf st sessionId = Some s \<and> sessionOf st' sessionId = Some s'
                   \<and> s_status s \<in> origins \<and> s_status s' = toStatus))"

text \<open>
  The operations that can take a session from \<open>idle\<close> or \<open>abandoned\<close> back to \<open>in_progress\<close>.
\<close>

fun mayReactivate :: "operation \<Rightarrow> bool" where
  "mayReactivate (StartOrResumeSession tokenHash respondentKey priorSessionId sessionPublicId) = True"
| "mayReactivate (SaveAnswer sessionPublicId fieldId newValue) = True"
| "mayReactivate (TransitionState sessionId toStatus reason) = (toStatus = in_progress)"
| "mayReactivate _ = False"

text \<open>
  The invariant of an invite: the count is at most the cap, and the invite is exhausted exactly
  when the count is the cap.
\<close>

definition capKept :: "invite \<Rightarrow> bool" where
  "capKept invite =
     (of_int (i_completionCount invite) \<le> i_maxCompletions invite
      \<and> (i_status invite = exhausted) = (of_int (i_completionCount invite) = i_maxCompletions invite))"

text \<open>A sequence of operations, stopping at the first that throws.\<close>

fun performAll ::
  "sessionConstants \<Rightarrow> validationEnv \<Rightarrow> int \<Rightarrow> operation list \<Rightarrow> store \<Rightarrow> error + store" where
  "performAll consts env now [] st = Inr st"
| "performAll consts env now (op # ops) st =
     andThen (perform consts env now op st) (performAll consts env now ops)"

definition inviteCounts :: "store \<Rightarrow> (int \<times> rat \<times> inviteStatus) list" where
  "inviteCounts st =
     map (\<lambda>doc. (i_completionCount (snd doc), i_maxCompletions (snd doc), i_status (snd doc)))
       (st_invites st)"

subsection \<open>Example data\<close>

definition exampleSessionConstants :: sessionConstants where
  "exampleSessionConstants =
     \<lparr> DEFAULT_INVITE_TTL_MS = 1209600000, IDLE_THRESHOLD_MS = 1800000,
       ABANDONED_THRESHOLD_MS = 86400000 \<rparr>"

definition exampleSession :: "string \<Rightarrow> sessionStatus \<Rightarrow> session" where
  "exampleSession sessionPublicId status =
     \<lparr> s_sessionPublicId = sessionPublicId, s_surveyId = 1, s_surveyVersionId = 7,
       s_inviteId = 10, s_respondentKey = ''respondent-a'', s_status = status, s_startedAt = 0,
       s_lastActivityAt = 0, s_completedAt = None, s_answersDraft = [] \<rparr>"

definition emptyStore :: store where
  "emptyStore =
     \<lparr> st_surveys = [1 \<mapsto> \<lparr> sy_createdByUserId = 5 \<rparr>], st_versions = [(7, exampleVersion)],
       st_invites = [], st_sessions = [], st_responses = [], st_transitions = [],
       st_metricsDaily = [], st_analyticsDaily = [], st_outbox = [], st_auditLogs = [],
       st_nextId = 100 \<rparr>"

definition exampleStore :: store where
  "exampleStore =
     emptyStore
       \<lparr> st_sessions := [(20, exampleSession ''s-20'' in_progress),
                          (21, exampleSession ''s-21'' idle),
                          (22, exampleSession ''s-22'' abandoned)] \<rparr>"

lemmas run_defs =
  perform_def transitionState_def transitionSession_def markIdleBatch_def markAbandonedBatch_def
  staleSessions_def batchLimit_def andThen_def
  bumpDailyMetric_def bumpMetricsRow_def bumpAnalyticsRow_def uniqueRow_def
  writeTransition_def enqueueEvent_def writeAuditLog_def enqueueAnalyticsEvent_def
  dateKeyFromTimestamp_def msPerDay_def tblPatch_def
  exampleStore_def emptyStore_def exampleSession_def exampleSessionConstants_def
  statusOf_def statusAfter_def sessionOf_def Let_def

subsection \<open>What a transition writes\<close>

lemma map_of_tblPatch:
  "map_of (tblPatch i row tbl) j
     = (if j = i \<and> map_of tbl i \<noteq> None then Some row else map_of tbl j)"
  by (induction tbl) (auto simp: tblPatch_def)

lemma andThen_Inr: "(andThen r f = Inr y) = (\<exists>x. r = Inr x \<and> f x = Inr y)"
  by (cases r) (simp_all add: andThen_def)

lemma bumpMetricsRow_frame:
  "bumpMetricsRow st surveyId m t = Inr st' \<Longrightarrow>
     st_sessions st' = st_sessions st \<and> st_invites st' = st_invites st"
  by (auto simp: bumpMetricsRow_def andThen_Inr Let_def split: option.splits)

lemma bumpAnalyticsRow_frame:
  "bumpAnalyticsRow st surveyId m t = Inr st' \<Longrightarrow>
     st_sessions st' = st_sessions st \<and> st_invites st' = st_invites st"
  by (auto simp: bumpAnalyticsRow_def andThen_Inr Let_def split: option.splits)

lemma bumpDailyMetric_frame:
  "bumpDailyMetric st surveyId m t = Inr st' \<Longrightarrow>
     st_sessions st' = st_sessions st \<and> st_invites st' = st_invites st"
  unfolding bumpDailyMetric_def andThen_Inr
  using bumpMetricsRow_frame bumpAnalyticsRow_frame by metis

lemma maybe_bump_frame:
  "(if b then bumpDailyMetric st surveyId m t else Inr st) = Inr st' \<Longrightarrow>
     st_sessions st' = st_sessions st \<and> st_invites st' = st_invites st"
  using bumpDailyMetric_frame by (cases b) auto

lemma transitionSession_cases:
  assumes "transitionSession st sessionId toStatus reason atMs = Inr (st', transitioned)"
  shows "(\<not> transitioned \<and> st' = st)
       \<or> (\<exists>session. transitioned \<and> sessionOf st sessionId = Some session
             \<and> s_status session \<noteq> toStatus
             \<and> st_invites st' = st_invites st
             \<and> st_sessions st' =
                 tblPatch sessionId
                   (session \<lparr> s_status := toStatus, s_lastActivityAt := atMs,
                              s_completedAt := (if toStatus = completed then Some atMs
                                                else s_completedAt session) \<rparr>)
                   (st_sessions st))"
proof (cases "map_of (st_sessions st) sessionId")
  case None
  with assms show ?thesis by (simp add: transitionSession_def)
next
  case (Some session)
  show ?thesis
  proof (cases "s_status session = toStatus")
    case True
    with Some assms show ?thesis by (simp add: transitionSession_def)
  next
    case False
    define st1 where "st1 = st \<lparr> st_sessions :=
                             tblPatch sessionId
                               (session \<lparr> s_status := toStatus, s_lastActivityAt := atMs,
                                          s_completedAt := (if toStatus = completed then Some atMs
                                                            else s_completedAt session) \<rparr>)
                               (st_sessions st) \<rparr>"
    define st2 where "st2 = writeTransition st1 sessionId (s_surveyId session)
                              (Some (s_status session)) toStatus reason atMs"
    have s2: "st_sessions st2 = st_sessions st1" "st_invites st2 = st_invites st"
      by (simp_all add: st2_def st1_def writeTransition_def)
    from assms Some False obtain st3 st4 st5 st6 where
      b3: "(if toStatus = idle then bumpDailyMetric st2 (s_surveyId session) Idle atMs
            else Inr st2) = Inr st3"
      and b4: "(if toStatus = abandoned then bumpDailyMetric st3 (s_surveyId session) Abandoned atMs
            else Inr st3) = Inr st4"
      and b5: "(if toStatus = in_progress \<and> (s_status session = idle \<or> s_status session = abandoned)
            then bumpDailyMetric st4 (s_surveyId session) Reactivated atMs
            else Inr st4) = Inr st5"
      and b6: "(if toStatus = completed then bumpDailyMetric st5 (s_surveyId session) Completed atMs
            else Inr st5) = Inr st6"
      and res: "st' = enqueueEvent st6 atMs
                        (if toStatus = idle then ''survey_session_idle''
                         else if toStatus = abandoned then ''survey_session_abandoned''
                         else if toStatus = in_progress then ''survey_session_reactivated''
                         else ''survey_submitted'')
                        (s_sessionPublicId session)"
      and tr: "transitioned"
      unfolding transitionSession_def st1_def st2_def
      by (simp add: andThen_Inr Let_def) blast
    from maybe_bump_frame [OF b3] maybe_bump_frame [OF b4] maybe_bump_frame [OF b5]
      maybe_bump_frame [OF b6] s2 res
    have "st_sessions st' = st_sessions st1" "st_invites st' = st_invites st"
      by (simp_all add: enqueueEvent_def)
    with Some False tr show ?thesis by (simp add: sessionOf_def st1_def)
  qed
qed

subsection \<open>The sweeps\<close>

lemma movedTo_refl: "movedTo origins toStatus st st"
  by (simp add: movedTo_def)

lemma transitionEach_movedTo:
  assumes "transitionEach cur ids toStatus reason now n = Inr (st', n')"
    and "movedTo origins toStatus st0 cur"
    and "\<forall>i \<in> set ids. \<exists>s. sessionOf st0 i = Some s \<and> s_status s \<in> origins"
    and "toStatus \<notin> origins"
  shows "movedTo origins toStatus st0 st'"
  using assms
proof (induction ids arbitrary: cur n)
  case Nil
  then show ?case by simp
next
  case (Cons i rest)
  from Cons.prems(1) obtain cur' b where
    step: "transitionSession cur i toStatus reason now = Inr (cur', b)"
    and rest: "transitionEach cur' rest toStatus reason now (if b then n + 1 else n) = Inr (st', n')"
    by (auto simp: andThen_Inr)
  have "movedTo origins toStatus st0 cur'"
  proof -
    from transitionSession_cases [OF step]
    consider "cur' = cur"
      | session where "sessionOf cur i = Some session" "s_status session \<noteq> toStatus"
          "st_sessions cur' =
                 tblPatch i
                   (session \<lparr> s_status := toStatus, s_lastActivityAt := now,
                              s_completedAt := (if toStatus = completed then Some now
                                                else s_completedAt session) \<rparr>)
                   (st_sessions cur)"
      by blast
    then show ?thesis
    proof cases
      case 1
      with Cons.prems(2) show ?thesis by simp
    next
      case 2
      from Cons.prems(3) obtain s0 where s0: "sessionOf st0 i = Some s0" "s_status s0 \<in> origins"
        by auto
      have new: "\<And>j. sessionOf cur' j
                   = (if j = i then Some (session \<lparr> s_status := toStatus, s_lastActivityAt := now,
                              s_completedAt := (if toStatus = completed then Some now
                                                else s_completedAt session) \<rparr>)
                      else sessionOf cur j)"
        using 2(1) by (simp add: sessionOf_def 2(3) map_of_tblPatch)
      show ?thesis
        unfolding movedTo_def
      proof
        fix j
        show "sessionOf cur' j = sessionOf st0 j
              \<or> (\<exists>s s'. sessionOf st0 j = Some s \<and> sessionOf cur' j = Some s'
                     \<and> s_status s \<in> origins \<and> s_status s' = toStatus)"
        proof (cases "j = i")
          case True
          with s0 new show ?thesis by simp
        next
          case False
          with new have "sessionOf cur' j = sessionOf cur j" by simp
          with Cons.prems(2) show ?thesis by (simp add: movedTo_def)
        qed
      qed
    qed
  qed
  from Cons.IH [OF rest this] Cons.prems(3,4) show ?case by simp
qed

lemma stale_candidates:
  assumes "distinct (map fst (st_sessions st))"
    and "i \<in> set (map fst (take n (staleSessions st status cutoff)))"
  shows "\<exists>s. sessionOf st i = Some s \<and> s_status s = status"
proof -
  from assms(2) obtain doc where d: "doc \<in> set (take n (staleSessions st status cutoff))" "fst doc = i"
    by auto
  from d(1) have "doc \<in> set (staleSessions st status cutoff)" by (rule in_set_takeD)
  then have m: "doc \<in> set (st_sessions st)" "s_status (snd doc) = status"
    by (simp_all add: staleSessions_def)
  from m(1) d(2) have "(i, snd doc) \<in> set (st_sessions st)" by auto
  with assms(1) have "map_of (st_sessions st) i = Some (snd doc)" by simp
  with m(2) show ?thesis by (simp add: sessionOf_def)
qed

lemma markIdleBatch_movedTo:
  assumes "distinct (map fst (st_sessions st))"
    and "markIdleBatch consts st limitArg now = Inr (st', n)"
  shows "movedTo {in_progress} idle st st'"
proof (rule transitionEach_movedTo [OF _ movedTo_refl])
  show "transitionEach st
          (map fst (take (batchLimit limitArg)
                      (staleSessions st in_progress (now - IDLE_THRESHOLD_MS consts))))
          idle ''idle_timeout'' now 0 = Inr (st', n)"
    using assms(2) by (simp add: markIdleBatch_def Let_def)
  show "\<forall>i\<in>set (map fst (take (batchLimit limitArg)
                      (staleSessions st in_progress (now - IDLE_THRESHOLD_MS consts)))).
          \<exists>s. sessionOf st i = Some s \<and> s_status s \<in> {in_progress}"
    using stale_candidates [OF assms(1)] by blast
  show "idle \<notin> {in_progress}" by simp
qed

lemma markAbandonedBatch_movedTo:
  assumes "distinct (map fst (st_sessions st))"
    and "markAbandonedBatch consts st limitArg now = Inr (st', n)"
  shows "movedTo {idle, in_progress} abandoned st st'"
proof -
  define cutoff where "cutoff = now - ABANDONED_THRESHOLD_MS consts"
  define idleSessions where "idleSessions = take (batchLimit limitArg) (staleSessions st idle cutoff)"
  define inProgressSessions where "inProgressSessions =
     (if batchLimit limitArg - length idleSessions > 0
      then take (batchLimit limitArg - length idleSessions) (staleSessions st in_progress cutoff)
      else [])"
  have run: "transitionEach st (map fst (idleSessions @ inProgressSessions)) abandoned
               ''abandoned_timeout'' now 0 = Inr (st', n)"
    using assms(2)
    unfolding markAbandonedBatch_def Let_def cutoff_def idleSessions_def inProgressSessions_def .
  have "\<forall>i\<in>set (map fst (idleSessions @ inProgressSessions)).
          \<exists>s. sessionOf st i = Some s \<and> s_status s \<in> {idle, in_progress}"
  proof
    fix i assume "i \<in> set (map fst (idleSessions @ inProgressSessions))"
    then consider "i \<in> set (map fst idleSessions)" | "i \<in> set (map fst inProgressSessions)"
      by auto
    then show "\<exists>s. sessionOf st i = Some s \<and> s_status s \<in> {idle, in_progress}"
    proof cases
      case 1
      from stale_candidates [OF assms(1) 1 [unfolded idleSessions_def]] show ?thesis by auto
    next
      case 2
      then have "i \<in> set (map fst (take (batchLimit limitArg - length idleSessions)
                                     (staleSessions st in_progress cutoff)))"
        by (cases "batchLimit limitArg - length idleSessions > 0")
           (simp_all add: inProgressSessions_def)
      from stale_candidates [OF assms(1) this] show ?thesis by auto
    qed
  qed
  from transitionEach_movedTo [OF run movedTo_refl this] show ?thesis by simp
qed

subsection \<open>The other operations\<close>

lemma completeSubmission_writes:
  assumes "completeSubmission st now doc invite version = Inr (st', responseId)"
  shows "st_sessions st' =
           tblPatch (fst doc)
             ((snd doc) \<lparr> s_status := completed, s_lastActivityAt := now,
                          s_completedAt := Some now \<rparr>)
             (st_sessions st)
       \<and> st_invites st' =
           tblPatch (s_inviteId (snd doc))
             (invite \<lparr> i_status := (if of_int (i_completionCount invite + 1) \<ge> i_maxCompletions invite
                                     then exhausted else i_status invite),
                       i_completionCount := i_completionCount invite + 1 \<rparr>)
             (st_invites st)"
proof -
  define st3 where "st3 =
    writeTransition
      (st \<lparr> st_responses := st_responses st @
               [(st_nextId st,
                 \<lparr> r_surveyId = s_surveyId (snd doc),
                   r_surveyVersionId = s_surveyVersionId (snd doc), r_submittedAt = now,
                   r_answers = map_of (s_answersDraft (snd doc)),
                   r_grading = Some (gradeSubmission (sv_fields version)
                                       (map_of (s_answersDraft (snd doc)))) \<rparr>)],
             st_nextId := st_nextId st + 1,
             st_sessions :=
               tblPatch (fst doc)
                 ((snd doc) \<lparr> s_status := completed, s_lastActivityAt := now,
                              s_completedAt := Some now \<rparr>)
                 (st_sessions st) \<rparr>)
      (fst doc) (s_surveyId (snd doc)) (Some (s_status (snd doc))) completed ''submitted'' now"
  have s3: "st_sessions st3 =
           tblPatch (fst doc)
             ((snd doc) \<lparr> s_status := completed, s_lastActivityAt := now,
                          s_completedAt := Some now \<rparr>)
             (st_sessions st)" "st_invites st3 = st_invites st"
    by (simp_all add: st3_def writeTransition_def)
  from assms obtain st4 where
    b: "bumpDailyMetric st3 (s_surveyId (snd doc)) Completed now = Inr st4"
    and r: "st_sessions st' = st_sessions st4"
       "st_invites st' =
           tblPatch (s_inviteId (snd doc))
             (invite \<lparr> i_status := (if of_int (i_completionCount invite + 1) \<ge> i_maxCompletions invite
                                     then exhausted else i_status invite),
                       i_completionCount := i_completionCount invite + 1 \<rparr>)
             (st_invites st4)"
    unfolding completeSubmission_def st3_def
    by (auto simp: andThen_Inr Let_def enqueueEvent_def writeAuditLog_def)
  from bumpDailyMetric_frame [OF b] s3 r show ?thesis by simp
qed

lemma submitSession_cases:
  assumes "submitSession env st sessionPublicId now = Inr (st', responseId)"
  shows "\<exists>doc invite version.
           sessionByPublicId st sessionPublicId = Inr (Some doc)
         \<and> map_of (st_invites st) (s_inviteId (snd doc)) = Some invite
         \<and> i_status invite = active
         \<and> of_int (i_completionCount invite) < i_maxCompletions invite
         \<and> completeSubmission st now doc invite version = Inr (st', responseId)"
proof -
  from assms obtain found where
    f: "sessionByPublicId st sessionPublicId = Inr found"
    and r1: "(case found of
            None \<Rightarrow> Inl NOT_FOUND
          | Some doc \<Rightarrow>
              if s_status (snd doc) = completed then Inl SESSION_COMPLETED
              else
                (case map_of (st_invites st) (s_inviteId (snd doc)) of
                   None \<Rightarrow> Inl NOT_FOUND
                 | Some invite \<Rightarrow>
                     if inviteExpired invite now then Inl INVITE_EXPIRED
                     else if of_int (i_completionCount invite) \<ge> i_maxCompletions invite
                     then Inl INVITE_EXHAUSTED
                     else if i_status invite \<noteq> active then Inl INVITE_UNAVAILABLE
                     else
                       (case map_of (st_versions st) (s_surveyVersionId (snd doc)) of
                          None \<Rightarrow> Inl NOT_FOUND
                        | Some version \<Rightarrow>
                            andThen (parseAnswerMapWithZod env (s_answersDraft (snd doc)))
                              (\<lambda>_. andThen (checkFields env (sv_fields version)
                                              (s_answersDraft (snd doc)))
                                     (\<lambda>_. completeSubmission st now doc invite version)))))
          = Inr (st', responseId)"
    unfolding submitSession_def andThen_Inr by blast
  from r1 obtain doc where d: "found = Some doc" by (cases found) simp_all
  from r1 d have nc: "s_status (snd doc) \<noteq> completed" by (auto split: if_splits)
  from r1 d nc obtain invite where i: "map_of (st_invites st) (s_inviteId (snd doc)) = Some invite"
    by (cases "map_of (st_invites st) (s_inviteId (snd doc))") simp_all
  from r1 d nc i have g: "\<not> inviteExpired invite now"
    "\<not> of_int (i_completionCount invite) \<ge> i_maxCompletions invite" "i_status invite = active"
    by (auto split: if_splits)
  from r1 d nc i g obtain version where
    v: "map_of (st_versions st) (s_surveyVersionId (snd doc)) = Some version"
    by (cases "map_of (st_versions st) (s_surveyVersionId (snd doc))") simp_all
  from r1 d nc i g v have "completeSubmission st now doc invite version = Inr (st', responseId)"
    by (simp add: andThen_Inr)
  with f d i g show ?thesis by auto
qed

lemma createInvite_sessions:
  assumes "createInvite consts c st surveyId surveyVersionId expiresAtArg maxCompletionsArg
             tokenHash now = Inr (st', inviteId)"
  shows "st_sessions st' = st_sessions st"
proof -
  from assms obtain user where
    r1: "(case st_surveys st surveyId of
            None \<Rightarrow> Inl NOT_FOUND
          | Some sv \<Rightarrow>
              andThen (assertSurveyOwnerOrAdmin user sv)
                (\<lambda>_. case map_of (st_versions st) surveyVersionId of
                        None \<Rightarrow> Inl NOT_FOUND
                      | Some version \<Rightarrow>
                          if sv_surveyId version \<noteq> surveyId then Inl NOT_FOUND
                          else
                            let maxCompletions =
                                  max 1 (case maxCompletionsArg of None \<Rightarrow> 1 | Some m \<Rightarrow> m);
                                expiresAt =
                                  (case expiresAtArg of
                                     None \<Rightarrow> now + DEFAULT_INVITE_TTL_MS consts
                                   | Some e \<Rightarrow> e);
                                inviteId = st_nextId st;
                                st1 = st \<lparr> st_invites := st_invites st @
                                             [(inviteId,
                                               \<lparr> i_surveyId = surveyId,
                                                 i_surveyVersionId = surveyVersionId,
                                                 i_tokenHash = tokenHash, i_status = active,
                                                 i_maxCompletions = maxCompletions,
                                                 i_completionCount = 0,
                                                 i_expiresAt = Some expiresAt,
                                                 i_createdByUserId = u_id user,
                                                 i_createdAt = now, i_revokedAt = None \<rparr>)],
                                           st_nextId := inviteId + 1 \<rparr>;
                                st2 = writeAuditLog st1 ''surveyInvite'' inviteId
                                        ''survey_invite_created'' ''admin'';
                                st3 = enqueueEvent st2 now ''survey_invite_created''
                                        (u_workosUserId user)
                            in Inr (st3, inviteId))) = Inr (st', inviteId)"
    unfolding createInvite_def andThen_Inr by blast
  from r1 obtain sv where sv: "st_surveys st surveyId = Some sv"
    by (cases "st_surveys st surveyId") simp_all
  from r1 sv obtain version where v: "map_of (st_versions st) surveyVersionId = Some version"
    by (cases "map_of (st_versions st) surveyVersionId") (simp_all add: andThen_Inr)
  from r1 sv v show ?thesis
    by (auto simp: andThen_Inr Let_def writeAuditLog_def enqueueEvent_def split: if_splits)
qed

lemma map_sum_fst_Inr: "(map_sum id fst r = Inr a) = (\<exists>b. r = Inr (a, b))"
  by (cases r) auto

lemma movedTo_not_reactivated:
  assumes "movedTo origins toStatus st st'" and "toStatus \<noteq> in_progress"
    and "sessionOf st sessionId = Some s" and "s_status s \<noteq> in_progress"
    and "sessionOf st' sessionId = Some s'"
  shows "s_status s' \<noteq> in_progress"
proof -
  from assms(1) have "sessionOf st' sessionId = sessionOf st sessionId
        \<or> (\<exists>s s'. sessionOf st sessionId = Some s \<and> sessionOf st' sessionId = Some s'
                   \<and> s_status s \<in> origins \<and> s_status s' = toStatus)"
    unfolding movedTo_def ..
  with assms(2-) show ?thesis by auto
qed

lemma perform_reactivation:
  assumes d: "distinct (map fst (st_sessions st))"
    and run: "perform consts env now op st = Inr st'"
    and s: "sessionOf st sessionId = Some s" "s_status s = idle \<or> s_status s = abandoned"
    and s': "sessionOf st' sessionId = Some s'" "s_status s' = in_progress"
  shows "mayReactivate op"
proof (cases op)
  case (CreateInvite c surveyId surveyVersionId expiresAt maxCompletions tokenHash)
  with run obtain inviteId where
    "createInvite consts c st surveyId surveyVersionId expiresAt maxCompletions tokenHash now
       = Inr (st', inviteId)"
    by (auto simp: perform_def map_sum_fst_Inr)
  from createInvite_sessions [OF this] s s' show ?thesis by (auto simp: sessionOf_def)
next
  case (StartOrResumeSession tokenHash respondentKey priorSessionId sessionPublicId)
  then show ?thesis by simp
next
  case (SaveAnswer sessionPublicId fieldId newValue)
  then show ?thesis by simp
next
  case (SubmitSession sessionPublicId)
  with run obtain responseId where
    "submitSession env st sessionPublicId now = Inr (st', responseId)"
    by (auto simp: perform_def map_sum_fst_Inr)
  from submitSession_cases [OF this] obtain doc invite version where
    "completeSubmission st now doc invite version = Inr (st', responseId)" by blast
  from completeSubmission_writes [OF this]
  have "sessionOf st' sessionId
          = (if sessionId = fst doc \<and> sessionOf st (fst doc) \<noteq> None
             then Some ((snd doc) \<lparr> s_status := completed, s_lastActivityAt := now,
                          s_completedAt := Some now \<rparr>)
             else sessionOf st sessionId)"
    by (simp add: sessionOf_def map_of_tblPatch)
  with s s' show ?thesis by (auto split: if_splits)
next
  case (TransitionState i toStatus reason)
  show ?thesis
  proof (cases "toStatus = in_progress")
    case True
    with TransitionState show ?thesis by simp
  next
    case False
    from run TransitionState obtain b where
      "transitionSession st i toStatus reason now = Inr (st', b)"
      by (auto simp: perform_def map_sum_fst_Inr transitionState_def)
    from transitionSession_cases [OF this]
    consider "st' = st"
      | session where "st_sessions st' =
                 tblPatch i
                   (session \<lparr> s_status := toStatus, s_lastActivityAt := now,
                              s_completedAt := (if toStatus = completed then Some now
                                                else s_completedAt session) \<rparr>)
                   (st_sessions st)"
      by blast
    then have False
    proof cases
      case 1
      with s s' show ?thesis by auto
    next
      case 2
      then have "sessionOf st' sessionId
          = (if sessionId = i \<and> sessionOf st i \<noteq> None
             then Some (session \<lparr> s_status := toStatus, s_lastActivityAt := now,
                              s_completedAt := (if toStatus = completed then Some now
                                                else s_completedAt session) \<rparr>)
             else sessionOf st sessionId)"
        by (simp add: sessionOf_def map_of_tblPatch)
      with s s' False show ?thesis by (auto split: if_splits)
    qed
    then show ?thesis ..
  qed
next
  case (MarkIdleBatch limitArg)
  with run obtain n where "markIdleBatch consts st limitArg now = Inr (st', n)"
    by (auto simp: perform_def map_sum_fst_Inr)
  from movedTo_not_reactivated [OF markIdleBatch_movedTo [OF d this] _ s(1) _ s'(1)] s s'
  show ?thesis by auto
next
  case (MarkAbandonedBatch limitArg)
  with run obtain n where "markAbandonedBatch consts st limitArg now = Inr (st', n)"
    by (auto simp: perform_def map_sum_fst_Inr)
  from movedTo_not_reactivated [OF markAbandonedBatch_movedTo [OF d this] _ s(1) _ s'(1)] s s'
  show ?thesis by auto
qed

lemma transitionSession_equal_status:
  "sessionOf st sessionId = Some s \<Longrightarrow> s_status s = toStatus \<Longrightarrow>
     transitionSession st sessionId toStatus reason now = Inr (st, False)"
  by (simp add: transitionSession_def sessionOf_def)

text \<open>
  Claim C6, as the code has it.  In a store whose session ids are distinct: \<open>markIdleBatch\<close>
  leaves every session as it was or takes it from \<open>in_progress\<close> to \<open>idle\<close>, and
  \<open>markAbandonedBatch\<close> leaves it as it was or takes it from \<open>idle\<close> or \<open>in_progress\<close> to
  \<open>abandoned\<close>, so no sweep sets a session to \<open>in_progress\<close>; an operation that takes a session
  from \<open>idle\<close> or \<open>abandoned\<close> to \<open>in_progress\<close> is \<open>startOrResumeSession\<close>, \<open>saveAnswer\<close>, or the
  internal mutation \<open>transitionState\<close> called with the target \<open>in_progress\<close>; and
  \<open>transitionSession\<close> on a session that already has the target status returns \<open>false\<close>, writes
  nothing and throws nothing.
\<close>

theorem sweeps_never_reactivate:
  assumes "distinct (map fst (st_sessions st))"
  shows "(markIdleBatch consts st limitArg now = Inr (st', n)
            \<longrightarrow> movedTo {in_progress} idle st st')
       \<and> (markAbandonedBatch consts st limitArg now = Inr (st', n)
            \<longrightarrow> movedTo {idle, in_progress} abandoned st st')
       \<and> (perform consts env now op st = Inr st'
            \<and> sessionOf st sessionId = Some s \<and> (s_status s = idle \<or> s_status s = abandoned)
            \<and> sessionOf st' sessionId = Some s' \<and> s_status s' = in_progress
            \<longrightarrow> mayReactivate op)
       \<and> (sessionOf st sessionId = Some s \<and> s_status s = toStatus
            \<longrightarrow> transitionSession st sessionId toStatus reason now = Inr (st, False))"
proof (intro conjI impI)
  assume "markIdleBatch consts st limitArg now = Inr (st', n)"
  then show "movedTo {in_progress} idle st st'" by (rule markIdleBatch_movedTo [OF assms])
next
  assume "markAbandonedBatch consts st limitArg now = Inr (st', n)"
  then show "movedTo {idle, in_progress} abandoned st st'"
    by (rule markAbandonedBatch_movedTo [OF assms])
next
  assume "perform consts env now op st = Inr st'
            \<and> sessionOf st sessionId = Some s \<and> (s_status s = idle \<or> s_status s = abandoned)
            \<and> sessionOf st' sessionId = Some s' \<and> s_status s' = in_progress"
  then show "mayReactivate op" using perform_reactivation [OF assms] by blast
next
  assume "sessionOf st sessionId = Some s \<and> s_status s = toStatus"
  then show "transitionSession st sessionId toStatus reason now = Inr (st, False)"
    using transitionSession_equal_status by blast
qed

theorem sweeps_never_reactivate_witness:
  "distinct (map fst (st_sessions exampleStore))
   \<and> (\<exists>st' n. markIdleBatch exampleSessionConstants exampleStore None 100000000 = Inr (st', n)
          \<and> movedTo {in_progress} idle exampleStore st')
   \<and> (\<exists>st' n. markAbandonedBatch exampleSessionConstants exampleStore None 100000000 = Inr (st', n)
          \<and> movedTo {idle, in_progress} abandoned exampleStore st')
   \<and> (\<exists>st' s s'.
          perform exampleSessionConstants zod4 100000000
            (SaveAnswer ''s-21'' ''q0'' (AString ''Ann'')) exampleStore = Inr st'
        \<and> sessionOf exampleStore 21 = Some s \<and> (s_status s = idle \<or> s_status s = abandoned)
        \<and> sessionOf st' 21 = Some s' \<and> s_status s' = in_progress
        \<and> mayReactivate (SaveAnswer ''s-21'' ''q0'' (AString ''Ann'')))
   \<and> sessionOf exampleStore 21 = Some (exampleSession ''s-21'' idle)
   \<and> s_status (exampleSession ''s-21'' idle) = idle
   \<and> transitionSession exampleStore 21 idle ''idle_timeout'' 100000000 = Inr (exampleStore, False)"
proof -
  have d: "distinct (map fst (st_sessions exampleStore))"
    by (simp add: exampleStore_def)
  have "\<exists>st' n. markIdleBatch exampleSessionConstants exampleStore None 100000000 = Inr (st', n)"
    by (simp add: run_defs)
  then obtain st1 n1 where
    r1: "markIdleBatch exampleSessionConstants exampleStore None 100000000 = Inr (st1, n1)"
    by blast
  have "\<exists>st' n. markAbandonedBatch exampleSessionConstants exampleStore None 100000000 = Inr (st', n)"
    by (simp add: run_defs)
  then obtain st2 n2 where
    r2: "markAbandonedBatch exampleSessionConstants exampleStore None 100000000 = Inr (st2, n2)"
    by blast
  have "statusAfter (perform exampleSessionConstants zod4 100000000
                       (SaveAnswer ''s-21'' ''q0'' (AString ''Ann'')) exampleStore) 21
          = Inr (Some in_progress)"
    by code_simp
  then obtain st3 s3 where
    r3: "perform exampleSessionConstants zod4 100000000
           (SaveAnswer ''s-21'' ''q0'' (AString ''Ann'')) exampleStore = Inr st3"
    and s3: "sessionOf st3 21 = Some s3" "s_status s3 = in_progress"
    by (cases "perform exampleSessionConstants zod4 100000000
                 (SaveAnswer ''s-21'' ''q0'' (AString ''Ann'')) exampleStore")
       (auto simp: statusAfter_def statusOf_def)
  have s: "sessionOf exampleStore 21 = Some (exampleSession ''s-21'' idle)"
    "s_status (exampleSession ''s-21'' idle) = idle"
    by (simp_all add: sessionOf_def exampleStore_def exampleSession_def)
  note t = sweeps_never_reactivate [OF d]
  from t [THEN conjunct1, rule_format, OF r1]
  have m1: "movedTo {in_progress} idle exampleStore st1" .
  from t [THEN conjunct2, THEN conjunct1, rule_format, OF r2]
  have m2: "movedTo {idle, in_progress} abandoned exampleStore st2" .
  from r3 s s3
  have "perform exampleSessionConstants zod4 100000000
          (SaveAnswer ''s-21'' ''q0'' (AString ''Ann'')) exampleStore = Inr st3
        \<and> sessionOf exampleStore 21 = Some (exampleSession ''s-21'' idle)
        \<and> (s_status (exampleSession ''s-21'' idle) = idle
             \<or> s_status (exampleSession ''s-21'' idle) = abandoned)
        \<and> sessionOf st3 21 = Some s3 \<and> s_status s3 = in_progress"
    by simp
  from t [THEN conjunct2, THEN conjunct2, THEN conjunct1, rule_format, OF this]
  have m3: "mayReactivate (SaveAnswer ''s-21'' ''q0'' (AString ''Ann''))" .
  from s have "sessionOf exampleStore 21 = Some (exampleSession ''s-21'' idle)
        \<and> s_status (exampleSession ''s-21'' idle) = idle"
    by simp
  from t [THEN conjunct2, THEN conjunct2, THEN conjunct2, rule_format, OF this]
  have m4: "transitionSession exampleStore 21 idle ''idle_timeout'' 100000000
              = Inr (exampleStore, False)" .
  from d r1 m1 r2 m2 r3 s s3 m3 m4 show ?thesis by blast
qed

text \<open>
  Claim C6 as stated fails for \<open>transitionState\<close>: the internal mutation, which is neither
  \<open>startOrResumeSession\<close> nor \<open>saveAnswer\<close>, takes the idle session 21 to \<open>in_progress\<close>.
\<close>

theorem transitionState_reactivates_counterexample:
  "statusOf exampleStore 21 = Some idle
   \<and> statusAfter (perform exampleSessionConstants zod4 100000000
                    (TransitionState 21 in_progress ''support'') exampleStore) 21
       = Inr (Some in_progress)"
  by (simp add: run_defs)

subsection \<open>The cap of an invite\<close>

text \<open>
  For an invite whose cap is a whole number, a successful \<open>submitSession\<close> keeps the invariant
  of every invite: the guard \<open>completionCount >= maxCompletions\<close> lets the submit through only
  below the cap, and \<open>nextCompletionCount >= maxCompletions\<close> then holds exactly at the cap.
\<close>

lemma submitSession_keeps_whole_cap:
  assumes run: "submitSession env st sessionPublicId now = Inr (st', responseId)"
    and inv: "map_of (st_invites st) inviteId = Some invite"
    and whole: "i_maxCompletions invite = of_int k"
    and kept: "capKept invite"
  shows "\<exists>invite'. map_of (st_invites st') inviteId = Some invite'
           \<and> i_maxCompletions invite' = i_maxCompletions invite
           \<and> capKept invite'"
proof -
  from submitSession_cases [OF run] obtain doc submitted version where
    i: "map_of (st_invites st) (s_inviteId (snd doc)) = Some submitted"
    and a: "i_status submitted = active"
    and c: "of_int (i_completionCount submitted) < i_maxCompletions submitted"
    and w: "completeSubmission st now doc submitted version = Inr (st', responseId)"
    by blast
  from completeSubmission_writes [OF w] i
  have new: "map_of (st_invites st') inviteId
          = (if inviteId = s_inviteId (snd doc)
             then Some (submitted
                     \<lparr> i_status := (if of_int (i_completionCount submitted + 1)
                                          \<ge> i_maxCompletions submitted
                                     then exhausted else i_status submitted),
                       i_completionCount := i_completionCount submitted + 1 \<rparr>)
             else map_of (st_invites st) inviteId)"
    by (simp add: map_of_tblPatch)
  show ?thesis
  proof (cases "inviteId = s_inviteId (snd doc)")
    case False
    with new inv kept show ?thesis by simp
  next
    case True
    with i inv have same: "submitted = invite" by simp
    from c whole same have lt: "i_completionCount invite < k" by simp
    define invite' where "invite' = invite
                     \<lparr> i_status := (if of_int (i_completionCount invite + 1)
                                          \<ge> i_maxCompletions invite
                                     then exhausted else i_status invite),
                       i_completionCount := i_completionCount invite + 1 \<rparr>"
    have k: "capKept invite'"
      using lt a same whole unfolding capKept_def invite'_def
      by (simp del: of_int_add add: of_int_add [symmetric])
    have m: "i_maxCompletions invite' = i_maxCompletions invite"
      by (simp add: invite'_def)
    from new True same have "map_of (st_invites st') inviteId = Some invite'"
      unfolding invite'_def by simp
    with k m show ?thesis by blast
  qed
qed

text \<open>
  Claim C4: after every \<open>submitSession\<close> the count of an invite is at most its cap, and the
  invite becomes exhausted exactly when the count reaches the cap.  The code breaks it for a
  cap that is not a whole number.  \<open>createInvite\<close> takes \<open>maxCompletions\<close> as any number and stores
  \<open>Math.max(1, maxCompletions)\<close>; the admin page sends a whole number (\<open>Number.parseInt\<close>), the
  mutation does not ask for one.  With the cap \<open>1.5\<close> the first submit leaves the invite active
  with the count 1, and the second submit passes the guard (\<open>1 >= 1.5\<close> is false) and takes the
  count to 2, past the cap, before the invite becomes exhausted.
\<close>

theorem fractional_cap_is_exceeded:
  "map_sum id inviteCounts
     (performAll exampleSessionConstants zod4 1000
        [CreateInvite exampleAdmin 1 7 None (Some (3 / 2)) ''hash-1'',
         StartOrResumeSession ''hash-1'' ''respondent-a'' None ''s-a'',
         SubmitSession ''s-a''] emptyStore)
     = Inr [(1, 3 / 2, active)]
   \<and> map_sum id inviteCounts
     (performAll exampleSessionConstants zod4 1000
        [CreateInvite exampleAdmin 1 7 None (Some (3 / 2)) ''hash-1'',
         StartOrResumeSession ''hash-1'' ''respondent-a'' None ''s-a'',
         SubmitSession ''s-a'',
         StartOrResumeSession ''hash-1'' ''respondent-b'' None ''s-b'',
         SubmitSession ''s-b''] emptyStore)
     = Inr [(2, 3 / 2, exhausted)]"
  by code_simp

end
